theory Spec2Isabelle
  imports Main "HOL-Library.Word"
begin

section \<open>Data model of window.go\<close>

text \<open>
  Go's \<open>uint\<close> is a 64-bit unsigned integer whose arithmetic wraps around;
  \<open>rune\<close> is a code point. \<open>gc.Char\<close> is the curses character type, an
  unsigned machine integer of which only \<open>|\<close> and the value \<open>0\<close> are used.
  A Go string is held as the list of code points that \<open>range\<close> and
  \<open>[]rune(...)\<close> produce from it.
\<close>

type_synonym uint = "64 word"
type_synonym rune = int
type_synonym gostring = "rune list"
type_synonym ThemeComponentId = int
type_synonym Char = "32 word"

text \<open>
  Every \<open>fmt.Errorf\<close> of window.go is a constructor carrying the values it formats;
  the two run-time panics the code could raise (an index out of range, an integer
  division by zero) are values as well.
\<close>

datatype error =
    InvalidRowIndex uint uint
  | ColumnNotPositive
  | InvalidColIndex uint uint
  | PanicIndexOutOfRange
  | PanicDivideByZero

record RenderedCodePoint =
  width :: uint
  codePoint :: rune

record CellStyle =
  componentId :: ThemeComponentId
  attr :: Char
  acs_char :: Char

record Cell =
  codePoints :: "rune list"
  style :: CellStyle

record Line =
  cells :: "Cell list"

record Cursor =
  row :: uint
  col :: uint

text \<open>
  \<open>Config\<close> is an interface declared outside window.go; the one thing read from
  it is \<open>config.GetInt(CV_TAB_WIDTH)\<close>, a Go \<open>int\<close>.
\<close>

record Config =
  GetInt_CV_TAB_WIDTH :: int

record LineBuilder =
  line :: Line
  cellIndex :: uint
  column :: uint
  startColumn :: uint
  config :: Config

record Window =
  win_id :: string
  rows :: uint
  cols :: uint
  lines :: "Line list"
  startRow :: uint
  startCol :: uint
  wconfig :: Config
  cursor :: "Cursor option"

record ViewDimension =
  vrows :: uint
  vcols :: uint

text \<open>
  What window.go calls but does not define: \<open>fmt.Sprintf\<close> (with the argument
  list of any type \<open>'a\<close>), \<open>unicode.IsPrint\<close>, \<open>runewidth.RuneWidth\<close>,
  \<open>nonPrintableCharString\<close>, the constant \<open>CMP_NONE\<close> and the curses constants.
  They are parameters of the model, so every theorem holds for whatever they are.
\<close>

record 'a externals =
  Sprintf :: "gostring \<Rightarrow> 'a \<Rightarrow> gostring"
  IsPrint :: "rune \<Rightarrow> bool"
  RuneWidth :: "rune \<Rightarrow> int"
  nonPrintableCharString :: "rune \<Rightarrow> gostring"
  CMP_NONE :: ThemeComponentId
  A_NORMAL :: Char
  A_REVERSE :: Char
  A_DIM :: Char
  ACS_ULCORNER :: Char
  ACS_URCORNER :: Char
  ACS_LLCORNER :: Char
  ACS_LRCORNER :: Char
  ACS_HLINE :: Char
  ACS_VLINE :: Char

section \<open>Lines and the line builder\<close>

text \<open>\<open>&Cell{}\<close>: an empty buffer and the zero style.\<close>

definition zeroCell :: Cell where
  "zeroCell = \<lparr>codePoints = [], style = \<lparr>componentId = 0, attr = 0, acs_char = 0\<rparr>\<rparr>"

definition NewLine :: "uint \<Rightarrow> Line" where
  "NewLine n = \<lparr>cells = replicate (unat n) zeroCell\<rparr>"

definition NewLineBuilder :: "Line \<Rightarrow> Config \<Rightarrow> uint \<Rightarrow> LineBuilder" where
  "NewLineBuilder l cfg sc =
     \<lparr>line = l, cellIndex = 0, column = 1, startColumn = sc, config = cfg\<rparr>"

text \<open>\<open>uint(len(line.cells))\<close>\<close>

definition lineLen :: "LineBuilder \<Rightarrow> uint" where
  "lineLen lb = of_nat (length (cells (line lb)))"

text \<open>
  \<open>line.cells[i]\<close> followed by a mutation of that cell: Go panics when \<open>i\<close> is not
  below the length of the slice.
\<close>

definition updCell :: "nat \<Rightarrow> (Cell \<Rightarrow> Cell) \<Rightarrow> Line \<Rightarrow> error + Line" where
  "updCell i f l =
     (if i < length (cells l) then Inr (l\<lparr>cells := (cells l)[i := f (cells l ! i)]\<rparr>)
      else Inl PanicIndexOutOfRange)"

definition writeCell :: "rune \<Rightarrow> ThemeComponentId \<Rightarrow> Cell \<Rightarrow> Cell" where
  "writeCell c cid cell =
     cell\<lparr>codePoints := [c], style := (style cell)\<lparr>componentId := cid, acs_char := 0\<rparr>\<rparr>"

definition resetCell :: "Cell \<Rightarrow> Cell" where
  "resetCell cell = cell\<lparr>codePoints := []\<rparr>"

definition writeRune :: "rune \<Rightarrow> Cell \<Rightarrow> Cell" where
  "writeRune c cell = cell\<lparr>codePoints := codePoints cell @ [c]\<rparr>"

definition setCellAndAdvanceIndex ::
  "LineBuilder \<Rightarrow> rune \<Rightarrow> uint \<Rightarrow> ThemeComponentId \<Rightarrow> error + LineBuilder" where
  "setCellAndAdvanceIndex lb c w cid =
     (if cellIndex lb < lineLen lb then
        (if column lb \<ge> startColumn lb then
           (case updCell (unat (cellIndex lb)) (writeCell c cid) (line lb) of
              Inl e \<Rightarrow> Inl e
            | Inr l \<Rightarrow> Inr (lb\<lparr>line := l, cellIndex := cellIndex lb + 1,
                                 column := column lb + w\<rparr>))
         else Inr (lb\<lparr>column := column lb + w\<rparr>))
      else Inr lb)"

text \<open>
  The loop of \<open>Clear\<close>:
  \<open>for i := uint(0); i < cellNum && cellIndex < uint(len(line.cells)); i++\<close>.
\<close>

function Clear_loop :: "uint \<Rightarrow> uint \<Rightarrow> LineBuilder \<Rightarrow> error + LineBuilder" where
  "Clear_loop i cellNum lb =
     (if i < cellNum \<and> cellIndex lb < lineLen lb then
        (case updCell (unat (cellIndex lb)) resetCell (line lb) of
           Inl e \<Rightarrow> Inl e
         | Inr l \<Rightarrow> Clear_loop (i + 1) cellNum (lb\<lparr>line := l, cellIndex := cellIndex lb + 1\<rparr>))
      else Inr lb)"
  by pat_completeness auto
termination
  by (relation "measure (\<lambda>(i, n, lb). unat n - unat i)") (simp, simp, unat_arith)

definition Clear :: "LineBuilder \<Rightarrow> uint \<Rightarrow> error + LineBuilder" where
  "Clear lb cellNum = Clear_loop 0 cellNum lb"

definition ToLineStart :: "LineBuilder \<Rightarrow> LineBuilder" where
  "ToLineStart lb = lb\<lparr>cellIndex := 0, startColumn := 1\<rparr>"

definition appendToPreviousCell :: "LineBuilder \<Rightarrow> rune \<Rightarrow> error + LineBuilder" where
  "appendToPreviousCell lb c =
     (if cellIndex lb > 0 then
        (case updCell (unat (cellIndex lb - 1)) (writeRune c) (line lb) of
           Inl e \<Rightarrow> Inl e
         | Inr l \<Rightarrow> Inr (lb\<lparr>line := l\<rparr>))
      else Inr lb)"

text \<open>
  \<open>DetermineRenderedCodePoint\<close>. The tab branch computes
  \<open>tabWidth - ((column - 1) % tabWidth)\<close> on \<open>uint\<close>, which panics when the tab
  width is zero.
\<close>

definition DetermineRenderedCodePoint ::
  "'a externals \<Rightarrow> rune \<Rightarrow> uint \<Rightarrow> Config \<Rightarrow> error + RenderedCodePoint list" where
  "DetermineRenderedCodePoint ext c colm cfg =
     (if \<not> IsPrint ext c then
        (if c = 9 then
           (let tabWidth = (word_of_int (GetInt_CV_TAB_WIDTH cfg) :: uint) in
            if tabWidth = 0 then Inl PanicDivideByZero
            else Inr (replicate (unat (tabWidth - ((colm - 1) mod tabWidth)))
                        \<lparr>width = 1, codePoint = 32\<rparr>))
         else if c \<noteq> 10 \<and> (c < 32 \<or> c = 127) then
           Inr (map (\<lambda>ch. \<lparr>width = 1, codePoint = ch\<rparr>) (nonPrintableCharString ext c))
         else Inr [\<lparr>width = 1, codePoint = c\<rparr>])
      else Inr [\<lparr>width = word_of_int (RuneWidth ext c), codePoint = c\<rparr>])"

text \<open>The body of the inner loop of \<open>AppendWithStyle\<close>, after the \<open>break\<close> test.\<close>

definition placeRendered ::
  "ThemeComponentId \<Rightarrow> RenderedCodePoint \<Rightarrow> LineBuilder \<Rightarrow> error + LineBuilder" where
  "placeRendered cid r lb =
     (if width r > 1 then
        (case setCellAndAdvanceIndex lb (codePoint r) (width r) cid of
           Inl e \<Rightarrow> Inl e
         | Inr lb' \<Rightarrow> Clear lb' (width r - 1))
      else if width r > 0 then setCellAndAdvanceIndex lb (codePoint r) (width r) cid
      else appendToPreviousCell lb (codePoint r))"

text \<open>
  The inner loop, \<open>for _, renderedCodePoint := range renderedCodePoints\<close>, which
  breaks once the cell index is above the length of the line.
\<close>

fun appendRendered ::
  "ThemeComponentId \<Rightarrow> RenderedCodePoint list \<Rightarrow> LineBuilder \<Rightarrow> error + LineBuilder" where
  "appendRendered cid [] lb = Inr lb"
| "appendRendered cid (r # rs) lb =
     (if cellIndex lb > lineLen lb then Inr lb
      else (case placeRendered cid r lb of
              Inl e \<Rightarrow> Inl e
            | Inr lb' \<Rightarrow> appendRendered cid rs lb'))"

text \<open>The outer loop, \<open>for _, codePoint := range str\<close>.\<close>

fun appendRunes ::
  "'a externals \<Rightarrow> ThemeComponentId \<Rightarrow> gostring \<Rightarrow> LineBuilder \<Rightarrow> error + LineBuilder" where
  "appendRunes ext cid [] lb = Inr lb"
| "appendRunes ext cid (c # cs) lb =
     (case DetermineRenderedCodePoint ext c (column lb) (config lb) of
        Inl e \<Rightarrow> Inl e
      | Inr rs \<Rightarrow>
          (case appendRendered cid rs lb of
             Inl e \<Rightarrow> Inl e
           | Inr lb' \<Rightarrow> appendRunes ext cid cs lb'))"

definition AppendWithStyle ::
  "'a externals \<Rightarrow> LineBuilder \<Rightarrow> ThemeComponentId \<Rightarrow> gostring \<Rightarrow> 'a \<Rightarrow> error + LineBuilder" where
  "AppendWithStyle ext lb cid format args = appendRunes ext cid (Sprintf ext format args) lb"

definition Append :: "'a externals \<Rightarrow> LineBuilder \<Rightarrow> gostring \<Rightarrow> 'a \<Rightarrow> error + LineBuilder" where
  "Append ext lb format args = AppendWithStyle ext lb (CMP_NONE ext) format args"

section \<open>Windows\<close>

definition NewWindow :: "string \<Rightarrow> Config \<Rightarrow> Window" where
  "NewWindow i cfg =
     \<lparr>win_id = i, rows = 0, cols = 0, lines = [], startRow = 0, startCol = 0,
      wconfig = cfg, cursor = None\<rparr>"

text \<open>
  \<open>Resize\<close> allocates \<open>rows\<close> lines, each by \<open>NewLine(cols)\<close>, so no two lines and
  no two cells share storage: the grid is a list of lists of cells.
\<close>

definition Resize :: "Window \<Rightarrow> ViewDimension \<Rightarrow> Window" where
  "Resize win vd =
     (if rows win = vrows vd \<and> cols win = vcols vd then win
      else win\<lparr>rows := vrows vd, cols := vcols vd,
               lines := map (\<lambda>i. NewLine (vcols vd)) [0 ..< unat (vrows vd)]\<rparr>)"

definition SetPosition :: "Window \<Rightarrow> uint \<Rightarrow> uint \<Rightarrow> Window" where
  "SetPosition win r c = win\<lparr>startRow := r, startCol := c\<rparr>"

definition Window_Clear :: "'a externals \<Rightarrow> Window \<Rightarrow> Window" where
  "Window_Clear ext win =
     win\<lparr>lines := map (\<lambda>l. l\<lparr>cells := map (\<lambda>cell.
                 cell\<lparr>codePoints := [32],
                      style := \<lparr>componentId = CMP_NONE ext, attr = A_NORMAL ext,
                                acs_char = 0\<rparr>\<rparr>) (cells l)\<rparr>) (lines win),
          cursor := None\<rparr>"

text \<open>\<open>win.lines[rowIndex]\<close> panics when the index is not below the length of the slice.\<close>

definition Window_LineBuilder :: "Window \<Rightarrow> uint \<Rightarrow> uint \<Rightarrow> error + LineBuilder" where
  "Window_LineBuilder win rowIndex sc =
     (if rowIndex \<ge> rows win then Inl (InvalidRowIndex rowIndex (rows win))
      else if sc = 0 then Inl ColumnNotPositive
      else if unat rowIndex < length (lines win)
        then Inr (NewLineBuilder (lines win ! unat rowIndex) (wconfig win) sc)
      else Inl PanicIndexOutOfRange)"

text \<open>
  The line builder holds a pointer to the line of the window, so what it wrote is
  the new content of that row.
\<close>

definition storeLine :: "Window \<Rightarrow> uint \<Rightarrow> LineBuilder \<Rightarrow> Window" where
  "storeLine win rowIndex lb = win\<lparr>lines := (lines win)[unat rowIndex := line lb]\<rparr>"

definition SetRow ::
  "'a externals \<Rightarrow> Window \<Rightarrow> uint \<Rightarrow> uint \<Rightarrow> ThemeComponentId \<Rightarrow> gostring \<Rightarrow> 'a
     \<Rightarrow> error + Window" where
  "SetRow ext win rowIndex sc cid format args =
     (case Window_LineBuilder win rowIndex sc of
        Inl e \<Rightarrow> Inl e
      | Inr lb \<Rightarrow>
          (case AppendWithStyle ext lb cid format args of
             Inl e \<Rightarrow> Inl e
           | Inr lb' \<Rightarrow> Inr (storeLine win rowIndex lb')))"

definition SetSelectedRow :: "'a externals \<Rightarrow> Window \<Rightarrow> uint \<Rightarrow> bool \<Rightarrow> error + Window" where
  "SetSelectedRow ext win rowIndex active =
     (if rowIndex \<ge> rows win then Inl (InvalidRowIndex rowIndex (rows win))
      else
        (let a = (if \<not> active then or (A_REVERSE ext) (A_DIM ext) else A_REVERSE ext) in
         if unat rowIndex < length (lines win) then
           (let l = lines win ! unat rowIndex;
                l' = l\<lparr>cells := map (\<lambda>cell. cell\<lparr>style := (style cell)
                         \<lparr>componentId := CMP_NONE ext, attr := or (attr (style cell)) a\<rparr>\<rparr>)
                       (cells l)\<rparr>
            in Inr (win\<lparr>lines := (lines win)[unat rowIndex := l']\<rparr>))
         else Inl PanicIndexOutOfRange))"

definition IsCursorSet :: "Window \<Rightarrow> bool" where
  "IsCursorSet win = (cursor win \<noteq> None)"

definition SetCursor :: "Window \<Rightarrow> uint \<Rightarrow> uint \<Rightarrow> error + Window" where
  "SetCursor win rowIndex colIndex =
     (if rowIndex \<ge> rows win then Inl (InvalidRowIndex rowIndex (rows win))
      else if colIndex \<ge> cols win then Inl (InvalidColIndex colIndex (cols win))
      else Inr (win\<lparr>cursor := Some \<lparr>row = rowIndex, col = colIndex\<rparr>\<rparr>))"

text \<open>
  \<open>setHeader\<close>. The format becomes \<open>" " + format + " "\<close>. The cell index is 2
  for a title; for a footer it is \<open>win.cols - (2 + formattedLen)\<close>, an unsigned
  subtraction, unless \<open>formattedLen > win.cols+2\<close>, where the function returns early
  (\<open>None\<close> below). The column counter is then the cell index plus one.
\<close>

definition setHeader ::
  "'a externals \<Rightarrow> Window \<Rightarrow> uint \<Rightarrow> bool \<Rightarrow> ThemeComponentId \<Rightarrow> gostring \<Rightarrow> 'a
     \<Rightarrow> error + Window" where
  "setHeader ext win rowIndex rightJustified cid format args =
     (if rows win < 3 \<or> cols win < 3 then Inr win
      else
        (case Window_LineBuilder win rowIndex 1 of
           Inl e \<Rightarrow> Inl e
         | Inr lb \<Rightarrow>
             (let format' = 32 # format @ [32];
                  start =
                    (if rightJustified then
                       (let formattedLen = (of_nat (length (Sprintf ext format' args)) :: uint)
                        in if formattedLen > cols win + 2 then None
                           else Some (cols win - (2 + formattedLen)))
                     else Some 2)
              in case start of
                   None \<Rightarrow> Inr win
                 | Some ci \<Rightarrow>
                     (case AppendWithStyle ext (lb\<lparr>cellIndex := ci, column := ci + 1\<rparr>)
                             cid format' args of
                        Inl e \<Rightarrow> Inl e
                      | Inr lb' \<Rightarrow> Inr (storeLine win rowIndex lb')))))"

definition SetTitle ::
  "'a externals \<Rightarrow> Window \<Rightarrow> ThemeComponentId \<Rightarrow> gostring \<Rightarrow> 'a \<Rightarrow> error + Window" where
  "SetTitle ext win cid format args = setHeader ext win 0 False cid format args"

definition SetFooter ::
  "'a externals \<Rightarrow> Window \<Rightarrow> ThemeComponentId \<Rightarrow> gostring \<Rightarrow> 'a \<Rightarrow> error + Window" where
  "SetFooter ext win cid format args =
     (if rows win < 1 then Inr win
      else setHeader ext win (rows win - 1) True cid format args)"

text \<open>\<open>win.lines[r].cells[c].style.acs_char = ch\<close>, with both index checks.\<close>

definition setAcs :: "nat \<Rightarrow> nat \<Rightarrow> Char \<Rightarrow> Line list \<Rightarrow> error + Line list" where
  "setAcs r c ch ls =
     (if r < length ls then
        (case updCell c (\<lambda>cell. cell\<lparr>style := (style cell)\<lparr>acs_char := ch\<rparr>\<rparr>) (ls ! r) of
           Inl e \<Rightarrow> Inl e
         | Inr l \<Rightarrow> Inr (ls[r := l]))
      else Inl PanicIndexOutOfRange)"

text \<open>\<open>for i := uint(1); i < win.cols-1; i++ { line.cells[i].style.acs_char = ch }\<close>\<close>

function hline_loop :: "uint \<Rightarrow> uint \<Rightarrow> nat \<Rightarrow> Char \<Rightarrow> Line list \<Rightarrow> error + Line list" where
  "hline_loop i n r ch ls =
     (if i < n then
        (case setAcs r (unat i) ch ls of
           Inl e \<Rightarrow> Inl e
         | Inr ls' \<Rightarrow> hline_loop (i + 1) n r ch ls')
      else Inr ls)"
  by pat_completeness auto
termination
  by (relation "measure (\<lambda>(i, n, r, ch, ls). unat n - unat i)") (simp, simp, unat_arith)

text \<open>The loop over the rows between the first and the last, setting both edges.\<close>

function vline_loop :: "uint \<Rightarrow> uint \<Rightarrow> uint \<Rightarrow> Char \<Rightarrow> Line list \<Rightarrow> error + Line list" where
  "vline_loop i n c ch ls =
     (if i < n then
        (case setAcs (unat i) 0 ch ls of
           Inl e \<Rightarrow> Inl e
         | Inr ls1 \<Rightarrow>
             (case setAcs (unat i) (unat (c - 1)) ch ls1 of
                Inl e \<Rightarrow> Inl e
              | Inr ls2 \<Rightarrow> vline_loop (i + 1) n c ch ls2))
      else Inr ls)"
  by pat_completeness auto
termination
  by (relation "measure (\<lambda>(i, n, c, ch, ls). unat n - unat i)") (simp, simp, unat_arith)

definition bindE :: "error + 'b \<Rightarrow> ('b \<Rightarrow> error + 'c) \<Rightarrow> error + 'c" where
  "bindE m f = (case m of Inl e \<Rightarrow> Inl e | Inr x \<Rightarrow> f x)"

definition DrawBorder :: "'a externals \<Rightarrow> Window \<Rightarrow> error + Window" where
  "DrawBorder ext win =
     (if rows win < 3 \<or> cols win < 3 then Inr win
      else
        (let lastc = unat (cols win - 1); lastr = unat (rows win - 1) in
         bindE (setAcs 0 0 (ACS_ULCORNER ext) (lines win)) (\<lambda>l1.
         bindE (hline_loop 1 (cols win - 1) 0 (ACS_HLINE ext) l1) (\<lambda>l2.
         bindE (setAcs 0 lastc (ACS_URCORNER ext) l2) (\<lambda>l3.
         bindE (vline_loop 1 (rows win - 1) (cols win) (ACS_VLINE ext) l3) (\<lambda>l4.
         bindE (setAcs lastr 0 (ACS_LLCORNER ext) l4) (\<lambda>l5.
         bindE (hline_loop 1 (cols win - 1) lastr (ACS_HLINE ext) l5) (\<lambda>l6.
         bindE (setAcs lastr lastc (ACS_LRCORNER ext) l6) (\<lambda>l7.
         Inr (win\<lparr>lines := l7\<rparr>))))))))))"

definition ApplyStyle :: "Window \<Rightarrow> ThemeComponentId \<Rightarrow> Window" where
  "ApplyStyle win cid =
     win\<lparr>lines := map (\<lambda>l. l\<lparr>cells := map (\<lambda>cell.
                 cell\<lparr>style := (style cell)\<lparr>componentId := cid\<rparr>\<rparr>) (cells l)\<rparr>) (lines win)\<rparr>"

text \<open>
  The shape \<open>Resize\<close> gives a window and every other operation keeps: \<open>rows\<close>
  lines of \<open>cols\<close> cells. The length of a Go slice is an \<open>int\<close>, so both counts are
  below \<open>2 ^ 63\<close>.
\<close>

definition wf_window :: "Window \<Rightarrow> bool" where
  "wf_window win \<longleftrightarrow>
     length (lines win) = unat (rows win) \<and>
     list_all (\<lambda>l. length (cells l) = unat (cols win)) (lines win) \<and>
     unat (rows win) < 2 ^ 63 \<and> unat (cols win) < 2 ^ 63"

section \<open>The key-sequence resolver\<close>

text \<open>
  Of the resolver the sources hold the test file only: the view identifiers, the
  action types, the two constructors of a binding and the signature of the binding
  provider are as input_buffer_test.go uses them.
\<close>

datatype ViewID = ViewMain | ViewHistory | ViewCommit | ViewOther nat

type_synonym ViewHierarchy = "ViewID list"

datatype ActionType = ActionNone | ActionFirstLine | ActionOther nat

datatype Action = Action (ActionType: ActionType)

datatype Binding = newActionBinding ActionType | newKeystringBinding string

type_synonym KeyBindings = "ViewHierarchy \<Rightarrow> string \<Rightarrow> Binding \<times> bool"

record InputBuffer =
  keyBindings :: KeyBindings
  buffer :: string

definition NewInputBuffer :: "KeyBindings \<Rightarrow> InputBuffer" where
  "NewInputBuffer kb = \<lparr>keyBindings = kb, buffer = []\<rparr>"

text \<open>
  Modelled from the spec: \<open>InputBuffer.Append\<close> of input_buffer.go, which is not
  among the sources. It appends the raw characters to the pending buffer and resolves
  nothing.
\<close>

definition InputBuffer_Append :: "InputBuffer \<Rightarrow> string \<Rightarrow> InputBuffer" where
  "InputBuffer_Append ib text = ib\<lparr>buffer := buffer ib @ text\<rparr>"

datatype ScanResult = Decisive string Binding string | Ambiguous

text \<open>
  Modelled from the spec: the prefix scan of \<open>InputBuffer.Process\<close> (steps 2 and 3
  of its algorithm), of input_buffer.go, which is not among the sources. The prefixes
  of the buffer are queried in increasing length; the scan ends at the first one the
  provider reports with \<open>isPrefix\<close> false, giving that prefix, its binding and the rest
  of the buffer, or after the whole buffer when every prefix was reported with
  \<open>isPrefix\<close> true.
\<close>

fun scan :: "KeyBindings \<Rightarrow> ViewHierarchy \<Rightarrow> string \<Rightarrow> string \<Rightarrow> ScanResult" where
  "scan kb vh p [] = Ambiguous"
| "scan kb vh p (c # rest) =
     (case kb vh (p @ [c]) of
        (b, isPrefix) \<Rightarrow>
          if \<not> isPrefix then Decisive (p @ [c]) b rest else scan kb vh (p @ [c]) rest)"

text \<open>
  Modelled from the spec: \<open>InputBuffer.Process\<close> of input_buffer.go, which is not
  among the sources (steps 1 and 4 to 7 of its algorithm). The result is the action,
  the keystring and the resolver after the call. "No binding" is what the tests return
  for an unbound keystring, an action binding of \<open>ActionNone\<close>; step 6 applies to it when
  the scan ended at the full length of the buffer, step 4 to every other action
  binding. A macro restarts the scan on the rewritten buffer, and nothing bounds the
  number of restarts: a call that never returns has the value \<open>None\<close>.
\<close>

partial_function (option) Process ::
  "ViewHierarchy \<Rightarrow> InputBuffer \<Rightarrow> ((Action \<times> string) \<times> InputBuffer) option" where
  "Process vh ib =
     (case buffer ib of
        [] \<Rightarrow> Some ((Action ActionNone, []), ib)
      | c # cs \<Rightarrow>
          (case scan (keyBindings ib) vh [] (c # cs) of
             Ambiguous \<Rightarrow> Some ((Action ActionNone, []), ib)
           | Decisive p b rest \<Rightarrow>
               (case b of
                  newKeystringBinding t \<Rightarrow> Process vh (ib\<lparr>buffer := t @ rest\<rparr>)
                | newActionBinding a \<Rightarrow>
                    if a = ActionNone \<and> rest = []
                    then Some ((Action ActionNone, [c]), ib\<lparr>buffer := cs\<rparr>)
                    else Some ((Action a, p), ib\<lparr>buffer := rest\<rparr>))))"

declare Process.simps [code]

section \<open>Concrete instances\<close>

text \<open>The view hierarchy and the binding tables of input_buffer_test.go.\<close>

definition vh0 :: ViewHierarchy where "vh0 = [ViewMain, ViewHistory, ViewCommit]"

definition kbMulti :: KeyBindings where
  "kbMulti vh k =
     (if k = ''a'' then (newActionBinding ActionNone, True)
      else if k = ''ab'' then (newActionBinding ActionNone, True)
      else if k = ''abc'' then (newActionBinding ActionFirstLine, False)
      else (newActionBinding ActionNone, False))"

definition kbDead :: KeyBindings where
  "kbDead vh k =
     (if k = ''a'' then (newActionBinding ActionNone, True)
      else (newActionBinding ActionNone, False))"

definition kbMacro :: KeyBindings where
  "kbMacro vh k =
     (if k = ''a'' then (newKeystringBinding ''bb'', False)
      else if k = ''b'' then (newActionBinding ActionNone, True)
      else if k = ''bb'' then (newActionBinding ActionNone, True)
      else if k = ''bbb'' then (newActionBinding ActionFirstLine, False)
      else (newActionBinding ActionNone, False))"

text \<open>
  An instance of the external functions for concrete runs: \<open>Sprintf\<close> on formats
  without verbs, and \<open>IsPrint\<close> and \<open>RuneWidth\<close> on ASCII, on the combining acute
  accent U+0301 (printable, width 0) and on the ideograph U+4E16 (printable, width 2).
  The tab width is 8; \<open>win r c\<close> is a new window resized to \<open>r\<close> rows and \<open>c\<close>
  columns; \<open>lbWrapped\<close> is a line builder whose cell index is the wrapped difference
  \<open>2 - (2 + 3)\<close>, as a footer of three characters gives on a line of two cells.
\<close>

definition ext0 :: "unit externals" where
  "ext0 = \<lparr>Sprintf = (\<lambda>format args. format),
           IsPrint = (\<lambda>c. (32 \<le> c \<and> c < 127) \<or> c = 769 \<or> c = 19990),
           RuneWidth = (\<lambda>c. if c = 19990 then 2 else if c = 769 then 0 else 1),
           nonPrintableCharString = (\<lambda>c. if c = 127 then [94, 63] else [94, c + 64]),
           CMP_NONE = 0, A_NORMAL = 0, A_REVERSE = 262144, A_DIM = 1048576,
           ACS_ULCORNER = 108, ACS_URCORNER = 107, ACS_LLCORNER = 109, ACS_LRCORNER = 106,
           ACS_HLINE = 113, ACS_VLINE = 120\<rparr>"

definition cfg0 :: Config where
  "cfg0 = \<lparr>GetInt_CV_TAB_WIDTH = 8\<rparr>"

definition cellOf :: "rune list \<Rightarrow> Cell" where
  "cellOf cps = \<lparr>codePoints = cps, style = \<lparr>componentId = 0, attr = 0, acs_char = 0\<rparr>\<rparr>"

definition lineXY :: Line where
  "lineXY = \<lparr>cells = [cellOf [120], cellOf [121]]\<rparr>"

definition win :: "uint \<Rightarrow> uint \<Rightarrow> Window" where
  "win r c = Resize (NewWindow [] cfg0) \<lparr>vrows = r, vcols = c\<rparr>"

text \<open>
  A line of four cells holding \<open>a\<close>, \<open>b\<close>, \<open>c\<close> and \<open>d\<close>, and a configuration whose
  tab width is zero.
\<close>

definition line4 :: Line where
  "line4 = \<lparr>cells = [cellOf [97], cellOf [98], cellOf [99], cellOf [100]]\<rparr>"

definition cfgNoTab :: Config where
  "cfgNoTab = \<lparr>GetInt_CV_TAB_WIDTH = 0\<rparr>"

definition lbWrapped :: LineBuilder where
  "lbWrapped = (NewLineBuilder lineXY cfg0 1)\<lparr>cellIndex := 2 - (2 + 3), column := 2 - (2 + 3) + 1\<rparr>"

section \<open>Properties of the line builder\<close>

lemma word_less_of_nat: "(x::uint) < of_nat n \<Longrightarrow> unat x < n"
proof -
  assume "x < of_nat n"
  then have "unat x < unat (of_nat n :: uint)" by (simp add: word_less_nat_alt)
  also have "\<dots> \<le> n" by (simp add: unat_of_nat)
  finally show ?thesis .
qed

lemma word_pred_less_of_nat: "0 < (x::uint) \<Longrightarrow> \<not> of_nat n < x \<Longrightarrow> unat (x - 1) < n"
proof -
  assume a: "0 < x" and b: "\<not> of_nat n < x"
  from b have "unat x \<le> unat (of_nat n :: uint)" by (simp add: word_less_nat_alt)
  also have "\<dots> \<le> n" by (simp add: unat_of_nat)
  finally have "unat x \<le> n" .
  moreover from a have "unat (x - 1) < unat x" by unat_arith
  ultimately show ?thesis by simp
qed

lemma unat_less_imp_word_less:
  "unat (x::uint) < n \<Longrightarrow> n < 2 ^ 63 \<Longrightarrow> x < of_nat n"
  by (simp add: word_less_nat_alt unat_of_nat)

lemma unat_inc:
  "unat (x::uint) + 1 < 2 ^ 64 \<Longrightarrow> unat (x + 1) = Suc (unat x)"
  by (simp add: unat_plus_if')

lemma updCell_Inr:
  "i < length (cells l) \<Longrightarrow> updCell i f l = Inr (l\<lparr>cells := (cells l)[i := f (cells l ! i)]\<rparr>)"
  by (simp add: updCell_def)

lemma setCellAndAdvanceIndex_cases:
  "setCellAndAdvanceIndex lb c w cid =
     Inr (if cellIndex lb < lineLen lb then
            (if column lb \<ge> startColumn lb then
               lb\<lparr>line := (line lb)\<lparr>cells := (cells (line lb))[unat (cellIndex lb) :=
                              writeCell c cid (cells (line lb) ! unat (cellIndex lb))]\<rparr>,
                   cellIndex := cellIndex lb + 1, column := column lb + w\<rparr>
             else lb\<lparr>column := column lb + w\<rparr>)
          else lb)"
  by (auto simp: setCellAndAdvanceIndex_def lineLen_def updCell_Inr dest: word_less_of_nat)

lemma Clear_loop_Inr:
  "\<exists>lb'. Clear_loop i n lb = Inr lb' \<and> config lb' = config lb \<and>
         length (cells (line lb')) = length (cells (line lb))"
proof (induction i n lb rule: Clear_loop.induct)
  case (1 i n lb)
  show ?case
  proof (cases "i < n \<and> cellIndex lb < lineLen lb")
    case True
    then have r: "unat (cellIndex lb) < length (cells (line lb))"
      by (auto simp: lineLen_def dest: word_less_of_nat)
    let ?l = "(line lb)\<lparr>cells := (cells (line lb))[unat (cellIndex lb) :=
                 resetCell (cells (line lb) ! unat (cellIndex lb))]\<rparr>"
    have u: "updCell (unat (cellIndex lb)) resetCell (line lb) = Inr ?l"
      using r by (rule updCell_Inr)
    from "1.IH"[OF True u] True u show ?thesis
      by (subst Clear_loop.simps) auto
  next
    case False
    then show ?thesis by (subst Clear_loop.simps) auto
  qed
qed

lemma Clear_one:
  "Clear lb 1 =
     Inr (if cellIndex lb < lineLen lb then
            lb\<lparr>line := (line lb)\<lparr>cells := (cells (line lb))[unat (cellIndex lb) :=
                           resetCell (cells (line lb) ! unat (cellIndex lb))]\<rparr>,
                cellIndex := cellIndex lb + 1\<rparr>
          else lb)"
proof (cases "cellIndex lb < lineLen lb")
  case True
  then have r: "unat (cellIndex lb) < length (cells (line lb))"
    by (auto simp: lineLen_def dest: word_less_of_nat)
  show ?thesis unfolding Clear_def
    by (subst Clear_loop.simps) (simp add: True updCell_Inr[OF r])
next
  case False
  then show ?thesis unfolding Clear_def by (subst Clear_loop.simps) simp
qed

lemma appendToPreviousCell_Inr:
  "\<not> lineLen lb < cellIndex lb \<Longrightarrow>
   \<exists>lb'. appendToPreviousCell lb c = Inr lb' \<and> config lb' = config lb \<and>
         length (cells (line lb')) = length (cells (line lb))"
  by (auto simp: appendToPreviousCell_def lineLen_def updCell_Inr dest: word_pred_less_of_nat)

text \<open>
  The test at the head of the inner loop is what keeps \<open>appendToPreviousCell\<close> in
  range: on its own, with a cell index above the length of the line, it indexes
  outside the line.
\<close>

lemma appendToPreviousCell_unguarded:
  "appendToPreviousCell lbWrapped 769 = Inl PanicIndexOutOfRange"
  by (simp add: appendToPreviousCell_def lbWrapped_def NewLineBuilder_def lineXY_def updCell_def
        word_less_nat_alt)

lemma placeRendered_Inr:
  assumes "\<not> lineLen lb < cellIndex lb"
  shows "\<exists>lb'. placeRendered cid r lb = Inr lb' \<and> config lb' = config lb \<and>
         length (cells (line lb')) = length (cells (line lb))"
proof -
  obtain lb1 where s: "setCellAndAdvanceIndex lb (codePoint r) (width r) cid = Inr lb1"
    and c1: "config lb1 = config lb"
    and l1: "length (cells (line lb1)) = length (cells (line lb))"
    by (simp add: setCellAndAdvanceIndex_cases)
  obtain lb2 where "Clear_loop 0 (width r - 1) lb1 = Inr lb2" "config lb2 = config lb1"
    "length (cells (line lb2)) = length (cells (line lb1))"
    using Clear_loop_Inr by blast
  with s c1 l1 appendToPreviousCell_Inr[OF assms, of "codePoint r"] show ?thesis
    by (auto simp: placeRendered_def Clear_def)
qed

lemma appendRendered_Inr:
  "\<exists>lb'. appendRendered cid rs lb = Inr lb' \<and> config lb' = config lb \<and>
         length (cells (line lb')) = length (cells (line lb))"
proof (induction rs arbitrary: lb)
  case Nil
  show ?case by simp
next
  case (Cons r rs)
  show ?case
  proof (cases "lineLen lb < cellIndex lb")
    case True
    then show ?thesis by simp
  next
    case False
    from placeRendered_Inr[OF False, of cid r] obtain lb1 where
      p: "placeRendered cid r lb = Inr lb1" "config lb1 = config lb"
         "length (cells (line lb1)) = length (cells (line lb))" by blast
    with Cons.IH[of lb1] False show ?thesis by auto
  qed
qed

lemma appendRendered_beyond:
  "lineLen lb < cellIndex lb \<Longrightarrow> appendRendered cid rs lb = Inr lb"
  by (cases rs) simp_all

lemma DetermineRenderedCodePoint_cases:
  "DetermineRenderedCodePoint ext c colm cfg = Inl e \<Longrightarrow>
     e = PanicDivideByZero \<and> (word_of_int (GetInt_CV_TAB_WIDTH cfg) :: uint) = 0 \<and> c = 9"
  by (auto simp: DetermineRenderedCodePoint_def Let_def split: if_splits)

lemma appendRunes_Inl:
  "appendRunes ext cid str lb = Inl e \<Longrightarrow>
     e = PanicDivideByZero \<and> (word_of_int (GetInt_CV_TAB_WIDTH (config lb)) :: uint) = 0
       \<and> 9 \<in> set str"
proof (induction str arbitrary: lb)
  case Nil
  then show ?case by simp
next
  case (Cons c cs)
  show ?case
  proof (cases "DetermineRenderedCodePoint ext c (column lb) (config lb)")
    case (Inl e')
    with Cons.prems have "e' = e" by simp
    with Inl DetermineRenderedCodePoint_cases[of ext c "column lb" "config lb" e] show ?thesis
      by simp
  next
    case (Inr rs)
    from appendRendered_Inr[of cid rs lb] obtain lb1 where
      a: "appendRendered cid rs lb = Inr lb1" "config lb1 = config lb" by blast
    with Inr Cons.prems have "appendRunes ext cid cs lb1 = Inl e" by simp
    from Cons.IH[OF this] a show ?thesis by simp
  qed
qed

lemma appendRunes_length:
  "appendRunes ext cid str lb = Inr lb' \<Longrightarrow>
     length (cells (line lb')) = length (cells (line lb)) \<and> config lb' = config lb"
proof (induction str arbitrary: lb)
  case Nil
  then show ?case by simp
next
  case (Cons c cs)
  show ?case
  proof (cases "DetermineRenderedCodePoint ext c (column lb) (config lb)")
    case (Inl e')
    with Cons.prems show ?thesis by simp
  next
    case (Inr rs)
    from appendRendered_Inr[of cid rs lb] obtain lb1 where
      a: "appendRendered cid rs lb = Inr lb1" "config lb1 = config lb"
         "length (cells (line lb1)) = length (cells (line lb))" by blast
    with Inr Cons.prems have "appendRunes ext cid cs lb1 = Inr lb'" by simp
    from Cons.IH[OF this] a show ?thesis by simp
  qed
qed

lemma appendRunes_beyond:
  "lineLen lb < cellIndex lb \<Longrightarrow>
   (word_of_int (GetInt_CV_TAB_WIDTH (config lb)) :: uint) \<noteq> 0 \<or> 9 \<notin> set str \<Longrightarrow>
   appendRunes ext cid str lb = Inr lb"
proof (induction str)
  case Nil
  show ?case by simp
next
  case (Cons c cs)
  show ?case
  proof (cases "DetermineRenderedCodePoint ext c (column lb) (config lb)")
    case (Inl e)
    from DetermineRenderedCodePoint_cases[OF this] Cons.prems(2) show ?thesis by simp
  next
    case (Inr rs)
    with Cons show ?thesis by (simp add: appendRendered_beyond)
  qed
qed

lemma AppendWithStyle_Inr:
  "(word_of_int (GetInt_CV_TAB_WIDTH (config lb)) :: uint) \<noteq> 0 \<or>
     9 \<notin> set (Sprintf ext format args) \<Longrightarrow>
   \<exists>lb'. AppendWithStyle ext lb cid format args = Inr lb'"
proof (cases "appendRunes ext cid (Sprintf ext format args) lb")
  case (Inl e)
  assume "(word_of_int (GetInt_CV_TAB_WIDTH (config lb)) :: uint) \<noteq> 0 \<or>
     9 \<notin> set (Sprintf ext format args)"
  with appendRunes_Inl[OF Inl] show ?thesis by simp
next
  case (Inr lb')
  then show ?thesis by (simp add: AppendWithStyle_def)
qed

lemma succ_less_lineLen:
  assumes "cellIndex lb < lineLen lb" "length (cells (line lb)) < 2 ^ 63"
  shows "unat (cellIndex lb + 1) = Suc (unat (cellIndex lb))"
    and "cellIndex lb + 1 < of_nat (length (cells (line lb)))
           \<longleftrightarrow> Suc (unat (cellIndex lb)) < length (cells (line lb))"
proof -
  let ?n = "length (cells (line lb))"
  have n: "unat (of_nat ?n :: uint) = ?n"
    using assms(2) by (simp add: unat_of_nat)
  from assms(1) have "unat (cellIndex lb) < ?n"
    by (auto simp: lineLen_def dest: word_less_of_nat)
  with assms(2) have "unat (cellIndex lb) + 1 < 2 ^ 64" by simp
  then show s: "unat (cellIndex lb + 1) = Suc (unat (cellIndex lb))"
    by (simp add: unat_add_lem[THEN iffD1])
  show "cellIndex lb + 1 < of_nat ?n \<longleftrightarrow> Suc (unat (cellIndex lb)) < ?n"
    by (simp add: word_less_nat_alt s n)
qed

lemma appendRunes_append:
  "appendRunes ext cid (xs @ ys) lb =
     (case appendRunes ext cid xs lb of
        Inl e \<Rightarrow> Inl e
      | Inr lb' \<Rightarrow> appendRunes ext cid ys lb')"
  by (induction xs arbitrary: lb) (simp_all split: sum.splits)

lemma wide_step:
  assumes "IsPrint ext c" and "RuneWidth ext c = 2"
    and "startColumn lb \<le> column lb" and "cellIndex lb < lineLen lb"
    and "length (cells (line lb)) < 2 ^ 63"
  shows "appendRunes ext cid (c # cs) lb =
     appendRunes ext cid cs
       (lb\<lparr>line := (line lb)\<lparr>cells :=
               (if Suc (unat (cellIndex lb)) < length (cells (line lb))
                then ((cells (line lb))[unat (cellIndex lb) :=
                         writeCell c cid (cells (line lb) ! unat (cellIndex lb))])
                       [Suc (unat (cellIndex lb)) :=
                         resetCell (cells (line lb) ! Suc (unat (cellIndex lb)))]
                else (cells (line lb))[unat (cellIndex lb) :=
                         writeCell c cid (cells (line lb) ! unat (cellIndex lb))])\<rparr>,
           cellIndex := (if Suc (unat (cellIndex lb)) < length (cells (line lb))
                         then cellIndex lb + 2 else cellIndex lb + 1),
           column := column lb + 2\<rparr>)"
proof -
  let ?i = "unat (cellIndex lb)"
  let ?cs = "cells (line lb)"
  have i: "?i < length ?cs"
    using assms(4) by (auto simp: lineLen_def dest: word_less_of_nat)
  have d: "DetermineRenderedCodePoint ext c (column lb) (config lb)
             = Inr [\<lparr>width = 2, codePoint = c\<rparr>]"
    using assms(1,2) by (simp add: DetermineRenderedCodePoint_def)
  have nb: "\<not> lineLen lb < cellIndex lb" using assms(4) by simp
  let ?lb1 = "lb\<lparr>line := (line lb)\<lparr>cells := ?cs[?i := writeCell c cid (?cs ! ?i)]\<rparr>,
                   cellIndex := cellIndex lb + 1, column := column lb + 2\<rparr>"
  have s: "setCellAndAdvanceIndex lb c 2 cid = Inr ?lb1"
    using assms(3,4) by (simp add: setCellAndAdvanceIndex_cases)
  have p: "placeRendered cid \<lparr>width = 2, codePoint = c\<rparr> lb = Clear ?lb1 1"
    by (simp add: placeRendered_def s)
  have run: "appendRunes ext cid (c # cs) lb =
      (case Clear ?lb1 1 of Inl e \<Rightarrow> Inl e | Inr lb' \<Rightarrow> appendRunes ext cid cs lb')"
    using nb by (cases "Clear ?lb1 1") (simp_all add: d p)
  let ?res = "lb\<lparr>line := (line lb)\<lparr>cells :=
               (if Suc ?i < length ?cs
                then (?cs[?i := writeCell c cid (?cs ! ?i)])[Suc ?i := resetCell (?cs ! Suc ?i)]
                else ?cs[?i := writeCell c cid (?cs ! ?i)])\<rparr>,
           cellIndex := (if Suc ?i < length ?cs then cellIndex lb + 2 else cellIndex lb + 1),
           column := column lb + 2\<rparr>"
  have "Clear ?lb1 1 = Inr ?res"
  proof (cases "Suc ?i < length ?cs")
    case True
    then have "cellIndex ?lb1 < lineLen ?lb1"
      using succ_less_lineLen(2)[OF assms(4,5)] by (simp add: lineLen_def)
    then show ?thesis
      using True i succ_less_lineLen(1)[OF assms(4,5)]
      by (simp add: Clear_one ac_simps)
  next
    case False
    then have "\<not> cellIndex ?lb1 < lineLen ?lb1"
      using succ_less_lineLen(2)[OF assms(4,5)] by (simp add: lineLen_def)
    then show ?thesis
      using False by (simp add: Clear_one)
  qed
  then show ?thesis by (simp only: run sum.case)
qed

lemma appendRunes_plain:
  assumes "\<forall>c\<in>set str. IsPrint ext c \<and> RuneWidth ext c = 1"
    and "startColumn lb \<le> column lb"
    and "unat (column lb) + length str < 2 ^ 64"
    and "unat (cellIndex lb) + length str \<le> length (cells (line lb))"
    and "length (cells (line lb)) < 2 ^ 63"
  shows "\<exists>l'. appendRunes ext cid str lb
                 = Inr (lb\<lparr>line := l', cellIndex := cellIndex lb + of_nat (length str),
                          column := column lb + of_nat (length str)\<rparr>) \<and>
              length (cells l') = length (cells (line lb)) \<and>
              (\<forall>j < length (cells (line lb)).
                 cells l' ! j =
                   (if unat (cellIndex lb) \<le> j \<and> j < unat (cellIndex lb) + length str
                    then writeCell (str ! (j - unat (cellIndex lb))) cid (cells (line lb) ! j)
                    else cells (line lb) ! j))"
  using assms
proof (induction str arbitrary: lb)
  case Nil
  show ?case by (intro exI[of _ "line lb"]) auto
next
  case (Cons c cs)
  let ?i = "unat (cellIndex lb)"
  let ?xs = "cells (line lb)"
  have i: "?i < length ?xs" using Cons.prems(4) by simp
  then have lt: "cellIndex lb < lineLen lb"
    using Cons.prems(5) by (simp add: lineLen_def unat_less_imp_word_less)
  have d: "DetermineRenderedCodePoint ext c (column lb) (config lb)
             = Inr [\<lparr>width = 1, codePoint = c\<rparr>]"
    using Cons.prems(1) by (simp add: DetermineRenderedCodePoint_def)
  let ?lb1 = "lb\<lparr>line := (line lb)\<lparr>cells := ?xs[?i := writeCell c cid (?xs ! ?i)]\<rparr>,
                   cellIndex := cellIndex lb + 1, column := column lb + 1\<rparr>"
  have s: "setCellAndAdvanceIndex lb c 1 cid = Inr ?lb1"
    using lt Cons.prems(2) by (simp add: setCellAndAdvanceIndex_cases)
  have nb: "\<not> lineLen lb < cellIndex lb" using lt by simp
  have step: "appendRunes ext cid (c # cs) lb = appendRunes ext cid cs ?lb1"
    by (simp add: d placeRendered_def s nb)
  have ci: "unat (cellIndex lb + 1) = Suc ?i"
    using i Cons.prems(5) by (intro unat_inc) simp
  have co: "unat (column lb + 1) = Suc (unat (column lb))"
    using Cons.prems(3) by (intro unat_inc) simp
  have p2: "startColumn ?lb1 \<le> column ?lb1"
  proof -
    have "unat (startColumn lb) \<le> unat (column lb)"
      using Cons.prems(2) by (simp add: word_le_nat_alt)
    then show ?thesis by (simp add: word_le_nat_alt co)
  qed
  have p1: "\<forall>c\<in>set cs. IsPrint ext c \<and> RuneWidth ext c = 1" using Cons.prems(1) by simp
  have p3: "unat (column ?lb1) + length cs < 2 ^ 64" using Cons.prems(3) by (simp add: co)
  have p4: "unat (cellIndex ?lb1) + length cs \<le> length (cells (line ?lb1))"
    using Cons.prems(4) by (simp add: ci)
  have p5: "length (cells (line ?lb1)) < 2 ^ 63" using Cons.prems(5) by simp
  from Cons.IH[OF p1 p2 p3 p4 p5] obtain l' where
    r: "appendRunes ext cid cs ?lb1
          = Inr (?lb1\<lparr>line := l', cellIndex := cellIndex ?lb1 + of_nat (length cs),
                     column := column ?lb1 + of_nat (length cs)\<rparr>)"
    and len: "length (cells l') = length (cells (line ?lb1))"
    and pt: "\<forall>j < length (cells (line ?lb1)).
               cells l' ! j =
                 (if unat (cellIndex ?lb1) \<le> j \<and> j < unat (cellIndex ?lb1) + length cs
                  then writeCell (cs ! (j - unat (cellIndex ?lb1))) cid (cells (line ?lb1) ! j)
                  else cells (line ?lb1) ! j)"
    by blast
  have "\<forall>j < length ?xs.
          cells l' ! j =
            (if ?i \<le> j \<and> j < ?i + length (c # cs)
             then writeCell ((c # cs) ! (j - ?i)) cid (?xs ! j) else ?xs ! j)"
  proof (intro allI impI)
    fix j assume j: "j < length ?xs"
    with pt have e: "cells l' ! j =
                 (if Suc ?i \<le> j \<and> j < Suc ?i + length cs
                  then writeCell (cs ! (j - Suc ?i)) cid ((?xs[?i := writeCell c cid (?xs ! ?i)]) ! j)
                  else (?xs[?i := writeCell c cid (?xs ! ?i)]) ! j)"
      by (simp add: ci)
    show "cells l' ! j =
            (if ?i \<le> j \<and> j < ?i + length (c # cs)
             then writeCell ((c # cs) ! (j - ?i)) cid (?xs ! j) else ?xs ! j)"
    proof (cases "j = ?i")
      case True
      with e i show ?thesis by simp
    next
      case False
      then have "(c # cs) ! (j - ?i) = cs ! (j - Suc ?i)" if "?i \<le> j"
        using that by (simp add: nth_Cons')
      with e False show ?thesis by (auto simp: nth_list_update)
    qed
  qed
  moreover have "appendRunes ext cid (c # cs) lb
          = Inr (lb\<lparr>line := l', cellIndex := cellIndex lb + of_nat (length (c # cs)),
                    column := column lb + of_nat (length (c # cs))\<rparr>)"
    by (simp only: step r) (simp add: ac_simps)
  moreover have "length (cells l') = length ?xs" using len by simp
  ultimately show ?case by blast
qed

text \<open>
  Claim C10, as stated, fails: with a tab width of zero in the configuration,
  appending a tab ends in the division panic of \<open>DetermineRenderedCodePoint\<close>, so
  \<open>AppendWithStyle\<close> and \<open>Append\<close> do not return for every input string.
\<close>

theorem tab_with_zero_tab_width_panics:
  "AppendWithStyle ext0 (NewLineBuilder lineXY cfgNoTab 1) 7 [9] () = Inl PanicDivideByZero \<and>
   Append ext0 (NewLineBuilder lineXY cfgNoTab 1) [9] () = Inl PanicDivideByZero"
  by (simp add: Append_def AppendWithStyle_def ext0_def DetermineRenderedCodePoint_def
        NewLineBuilder_def cfgNoTab_def)

text \<open>
  Claim C10, amended. Whatever the line, the start column, the cell index (also one
  that wrapped around in \<open>setHeader\<close>), the column counter and the string,
  \<open>AppendWithStyle\<close>, \<open>Append\<close> and \<open>Clear\<close> never index a cell at or beyond the
  length of the line: none of them ends in the index panic, and the line keeps its
  length. \<open>Clear\<close> always returns. \<open>AppendWithStyle\<close> and \<open>Append\<close> return whenever
  the configured tab width is not zero or the string has no tab; the one way they
  fail is the division panic, on a tab with a tab width of zero.
\<close>

theorem line_builder_cell_access_in_range:
  "AppendWithStyle ext lb cid format args \<noteq> Inl PanicIndexOutOfRange \<and>
   Append ext lb format args \<noteq> Inl PanicIndexOutOfRange \<and>
   (\<exists>lb'. Clear lb n = Inr lb' \<and> length (cells (line lb')) = length (cells (line lb))) \<and>
   ((word_of_int (GetInt_CV_TAB_WIDTH (config lb)) :: uint) \<noteq> 0 \<or>
      9 \<notin> set (Sprintf ext format args) \<longrightarrow>
      (\<exists>lb'. AppendWithStyle ext lb cid format args = Inr lb' \<and>
             length (cells (line lb')) = length (cells (line lb))) \<and>
      (\<exists>lb'. Append ext lb format args = Inr lb' \<and>
             length (cells (line lb')) = length (cells (line lb)))) \<and>
   (\<forall>e. AppendWithStyle ext lb cid format args = Inl e \<or> Append ext lb format args = Inl e \<longrightarrow>
      e = PanicDivideByZero \<and>
      (word_of_int (GetInt_CV_TAB_WIDTH (config lb)) :: uint) = 0 \<and>
      9 \<in> set (Sprintf ext format args))"
proof -
  have a: "appendRunes ext k (Sprintf ext format args) lb \<noteq> Inl PanicIndexOutOfRange" for k
    using appendRunes_Inl[of ext k "Sprintf ext format args" lb PanicIndexOutOfRange] by auto
  have b: "\<exists>lb'. appendRunes ext k (Sprintf ext format args) lb = Inr lb' \<and>
             length (cells (line lb')) = length (cells (line lb))"
    if "(word_of_int (GetInt_CV_TAB_WIDTH (config lb)) :: uint) \<noteq> 0 \<or>
      9 \<notin> set (Sprintf ext format args)" for k
  proof (cases "appendRunes ext k (Sprintf ext format args) lb")
    case (Inl e)
    from appendRunes_Inl[OF this] that show ?thesis by simp
  next
    case (Inr lb')
    with appendRunes_length[OF this] show ?thesis by simp
  qed
  have c: "\<exists>lb'. Clear lb n = Inr lb' \<and> length (cells (line lb')) = length (cells (line lb))"
    using Clear_loop_Inr[of 0 n lb] by (auto simp: Clear_def)
  have d: "e = PanicDivideByZero \<and>
      (word_of_int (GetInt_CV_TAB_WIDTH (config lb)) :: uint) = 0 \<and>
      9 \<in> set (Sprintf ext format args)"
    if "appendRunes ext k (Sprintf ext format args) lb = Inl e" for k e
    using appendRunes_Inl[OF that] .
  have d': "\<forall>e. AppendWithStyle ext lb cid format args = Inl e \<or> Append ext lb format args = Inl e \<longrightarrow>
      e = PanicDivideByZero \<and>
      (word_of_int (GetInt_CV_TAB_WIDTH (config lb)) :: uint) = 0 \<and>
      9 \<in> set (Sprintf ext format args)"
    unfolding AppendWithStyle_def Append_def using d by blast
  from a b c have "AppendWithStyle ext lb cid format args \<noteq> Inl PanicIndexOutOfRange \<and>
   Append ext lb format args \<noteq> Inl PanicIndexOutOfRange \<and>
   (\<exists>lb'. Clear lb n = Inr lb' \<and> length (cells (line lb')) = length (cells (line lb))) \<and>
   ((word_of_int (GetInt_CV_TAB_WIDTH (config lb)) :: uint) \<noteq> 0 \<or>
      9 \<notin> set (Sprintf ext format args) \<longrightarrow>
      (\<exists>lb'. AppendWithStyle ext lb cid format args = Inr lb' \<and>
             length (cells (line lb')) = length (cells (line lb))) \<and>
      (\<exists>lb'. Append ext lb format args = Inr lb' \<and>
             length (cells (line lb')) = length (cells (line lb))))"
    by (simp add: AppendWithStyle_def Append_def)
  with d' show ?thesis by blast
qed

theorem line_builder_cell_access_in_range_witness:
  "(word_of_int (GetInt_CV_TAB_WIDTH (config (NewLineBuilder lineXY cfg0 1))) :: uint) \<noteq> 0 \<and>
   (\<exists>lb'. AppendWithStyle ext0 (NewLineBuilder lineXY cfg0 1) 7 [9, 120, 769, 19990] ()
            = Inr lb' \<and> length (cells (line lb')) = 2) \<and>
   (\<exists>lb'. Append ext0 (NewLineBuilder lineXY cfg0 1) [120, 769, 19990, 9] ()
            = Inr lb' \<and> length (cells (line lb')) = 2) \<and>
   (\<exists>lb'. Clear (NewLineBuilder lineXY cfg0 1) 4 = Inr lb' \<and> length (cells (line lb')) = 2) \<and>
   (\<exists>lb'. AppendWithStyle ext0 lbWrapped 7 [9, 120, 769, 19990] () = Inr lb' \<and>
          length (cells (line lb')) = 2) \<and>
   (\<exists>lb'. Clear lbWrapped 4 = Inr lb' \<and> length (cells (line lb')) = 2)"
proof -
  let ?lb = "NewLineBuilder lineXY cfg0 1"
  have t: "(word_of_int (GetInt_CV_TAB_WIDTH (config ?lb)) :: uint) \<noteq> 0"
    by (simp add: NewLineBuilder_def cfg0_def)
  have n: "length (cells (line ?lb)) = 2"
    by (simp add: NewLineBuilder_def lineXY_def)
  have t': "(word_of_int (GetInt_CV_TAB_WIDTH (config lbWrapped)) :: uint) \<noteq> 0"
    by (simp add: lbWrapped_def NewLineBuilder_def cfg0_def)
  have n': "length (cells (line lbWrapped)) = 2"
    by (simp add: lbWrapped_def NewLineBuilder_def lineXY_def)
  have 1: "(\<exists>lb'. AppendWithStyle ext0 ?lb 7 [9, 120, 769, 19990] () = Inr lb' \<and>
              length (cells (line lb')) = 2) \<and>
           (\<exists>lb'. Clear ?lb 4 = Inr lb' \<and> length (cells (line lb')) = 2)"
    using line_builder_cell_access_in_range[of ext0 ?lb 7 "[9, 120, 769, 19990]" "()" 4] t
    by (simp only: n) blast
  have 2: "\<exists>lb'. Append ext0 ?lb [120, 769, 19990, 9] () = Inr lb' \<and>
              length (cells (line lb')) = 2"
    using line_builder_cell_access_in_range[of ext0 ?lb 7 "[120, 769, 19990, 9]" "()" 4] t
    by (simp only: n) blast
  have 3: "(\<exists>lb'. AppendWithStyle ext0 lbWrapped 7 [9, 120, 769, 19990] () = Inr lb' \<and>
              length (cells (line lb')) = 2) \<and>
           (\<exists>lb'. Clear lbWrapped 4 = Inr lb' \<and> length (cells (line lb')) = 2)"
    using line_builder_cell_access_in_range[of ext0 lbWrapped 7 "[9, 120, 769, 19990]" "()" 4] t'
    by (simp only: n') blast
  from t 1 2 3 show ?thesis by blast
qed

text \<open>
  Claim C8. Let the formatted text be a prefix, a printable code point \<open>c\<close> of width
  2 and a suffix, and let \<open>lb1\<close> be the line builder once the prefix is appended. If
  there the column counter is at or beyond the start column and the cell index is
  inside the line, then \<open>AppendWithStyle\<close> (and \<open>Append\<close>, which is \<open>AppendWithStyle\<close>
  with the style \<open>CMP_NONE\<close>) goes on with the suffix from the builder \<open>lb2\<close> in which
  \<open>c\<close> is written into the cell at the cell index and into no other, the column
  counter is advanced by 2, the following cell, when the line has one, is emptied
  and the cell index moved past it (otherwise past the written cell only), and every
  other cell is unchanged.
\<close>

theorem wide_code_point_write:
  assumes "IsPrint ext c" and "RuneWidth ext c = 2"
    and "Sprintf ext format args = pre @ c # suf"
    and "appendRunes ext cid pre lb = Inr lb1"
    and "startColumn lb1 \<le> column lb1" and "cellIndex lb1 < lineLen lb1"
    and "length (cells (line lb1)) < 2 ^ 63"
  shows "\<exists>lb2.
           lb2 = lb1\<lparr>line := (line lb1)\<lparr>cells :=
                   (if Suc (unat (cellIndex lb1)) < length (cells (line lb1))
                    then ((cells (line lb1))[unat (cellIndex lb1) :=
                             writeCell c cid (cells (line lb1) ! unat (cellIndex lb1))])
                           [Suc (unat (cellIndex lb1)) :=
                             resetCell (cells (line lb1) ! Suc (unat (cellIndex lb1)))]
                    else (cells (line lb1))[unat (cellIndex lb1) :=
                             writeCell c cid (cells (line lb1) ! unat (cellIndex lb1))])\<rparr>,
                 cellIndex := (if Suc (unat (cellIndex lb1)) < length (cells (line lb1))
                               then cellIndex lb1 + 2 else cellIndex lb1 + 1),
                 column := column lb1 + 2\<rparr> \<and>
           AppendWithStyle ext lb cid format args = appendRunes ext cid suf lb2 \<and>
           (cid = CMP_NONE ext \<longrightarrow>
              Append ext lb format args = appendRunes ext cid suf lb2) \<and>
           column lb2 = column lb1 + 2 \<and>
           cellIndex lb2 = (if Suc (unat (cellIndex lb1)) < length (cells (line lb1))
                            then cellIndex lb1 + 2 else cellIndex lb1 + 1) \<and>
           length (cells (line lb2)) = length (cells (line lb1)) \<and>
           codePoints (cells (line lb2) ! unat (cellIndex lb1)) = [c] \<and>
           componentId (style (cells (line lb2) ! unat (cellIndex lb1))) = cid \<and>
           acs_char (style (cells (line lb2) ! unat (cellIndex lb1))) = 0 \<and>
           attr (style (cells (line lb2) ! unat (cellIndex lb1)))
             = attr (style (cells (line lb1) ! unat (cellIndex lb1))) \<and>
           (Suc (unat (cellIndex lb1)) < length (cells (line lb1)) \<longrightarrow>
              codePoints (cells (line lb2) ! Suc (unat (cellIndex lb1))) = [] \<and>
              style (cells (line lb2) ! Suc (unat (cellIndex lb1)))
                = style (cells (line lb1) ! Suc (unat (cellIndex lb1)))) \<and>
           (\<forall>j < length (cells (line lb1)).
              j \<noteq> unat (cellIndex lb1) \<and> j \<noteq> Suc (unat (cellIndex lb1)) \<longrightarrow>
              cells (line lb2) ! j = cells (line lb1) ! j)"
proof -
  let ?i = "unat (cellIndex lb1)"
  let ?cs = "cells (line lb1)"
  let ?lb2 = "lb1\<lparr>line := (line lb1)\<lparr>cells :=
                   (if Suc ?i < length ?cs
                    then (?cs[?i := writeCell c cid (?cs ! ?i)])[Suc ?i := resetCell (?cs ! Suc ?i)]
                    else ?cs[?i := writeCell c cid (?cs ! ?i)])\<rparr>,
                 cellIndex := (if Suc ?i < length ?cs then cellIndex lb1 + 2
                               else cellIndex lb1 + 1),
                 column := column lb1 + 2\<rparr>"
  have i: "?i < length ?cs"
    using assms(6) by (auto simp: lineLen_def dest: word_less_of_nat)
  have "appendRunes ext cid (pre @ c # suf) lb = appendRunes ext cid (c # suf) lb1"
    by (simp only: appendRunes_append assms(4) sum.case)
  also have "\<dots> = appendRunes ext cid suf ?lb2"
    using assms(1,2,5,6,7) by (rule wide_step)
  finally have run: "AppendWithStyle ext lb cid format args = appendRunes ext cid suf ?lb2"
    by (simp only: AppendWithStyle_def assms(3))
  have run': "cid = CMP_NONE ext \<longrightarrow>
              Append ext lb format args = appendRunes ext cid suf ?lb2"
  proof
    assume "cid = CMP_NONE ext"
    then have "Append ext lb format args = AppendWithStyle ext lb cid format args"
      by (simp add: Append_def)
    then show "Append ext lb format args = appendRunes ext cid suf ?lb2"
      by (simp only: run)
  qed
  have props: "column ?lb2 = column lb1 + 2 \<and>
           cellIndex ?lb2 = (if Suc ?i < length ?cs then cellIndex lb1 + 2 else cellIndex lb1 + 1) \<and>
           length (cells (line ?lb2)) = length ?cs \<and>
           codePoints (cells (line ?lb2) ! ?i) = [c] \<and>
           componentId (style (cells (line ?lb2) ! ?i)) = cid \<and>
           acs_char (style (cells (line ?lb2) ! ?i)) = 0 \<and>
           attr (style (cells (line ?lb2) ! ?i)) = attr (style (?cs ! ?i)) \<and>
           (Suc ?i < length ?cs \<longrightarrow>
              codePoints (cells (line ?lb2) ! Suc ?i) = [] \<and>
              style (cells (line ?lb2) ! Suc ?i) = style (?cs ! Suc ?i)) \<and>
           (\<forall>j < length ?cs. j \<noteq> ?i \<and> j \<noteq> Suc ?i \<longrightarrow> cells (line ?lb2) ! j = ?cs ! j)"
    using i by (simp add: writeCell_def resetCell_def nth_list_update)
  from run run' props show ?thesis by blast
qed

theorem wide_code_point_write_witness:
  "AppendWithStyle ext0 (NewLineBuilder line4 cfg0 1) 7 [120, 19990, 121] ()
     = Inr \<lparr>line = \<lparr>cells =
              [\<lparr>codePoints = [120], style = \<lparr>componentId = 7, attr = 0, acs_char = 0\<rparr>\<rparr>,
               \<lparr>codePoints = [19990], style = \<lparr>componentId = 7, attr = 0, acs_char = 0\<rparr>\<rparr>,
               \<lparr>codePoints = [], style = \<lparr>componentId = 0, attr = 0, acs_char = 0\<rparr>\<rparr>,
               \<lparr>codePoints = [121], style = \<lparr>componentId = 7, attr = 0, acs_char = 0\<rparr>\<rparr>]\<rparr>,
            cellIndex = 4, column = 5, startColumn = 1, config = cfg0\<rparr> \<and>
   Append ext0 (NewLineBuilder lineXY cfg0 1) [19990] ()
     = Inr \<lparr>line = \<lparr>cells =
              [\<lparr>codePoints = [19990], style = \<lparr>componentId = 0, attr = 0, acs_char = 0\<rparr>\<rparr>,
               \<lparr>codePoints = [], style = \<lparr>componentId = 0, attr = 0, acs_char = 0\<rparr>\<rparr>]\<rparr>,
            cellIndex = 2, column = 3, startColumn = 1, config = cfg0\<rparr>"
proof -
  let ?lb = "NewLineBuilder line4 cfg0 1"
  let ?lb1 = "\<lparr>line = \<lparr>cells =
              [\<lparr>codePoints = [120], style = \<lparr>componentId = 7, attr = 0, acs_char = 0\<rparr>\<rparr>,
               cellOf [98], cellOf [99], cellOf [100]]\<rparr>,
            cellIndex = 1, column = 2, startColumn = 1, config = cfg0\<rparr>"
  have h1: "IsPrint ext0 19990" by (simp add: ext0_def)
  have h2: "RuneWidth ext0 19990 = 2" by (simp add: ext0_def)
  have h3: "Sprintf ext0 [120, 19990, 121] () = [120] @ 19990 # [121]" by (simp add: ext0_def)
  have h4: "appendRunes ext0 7 [120] ?lb = Inr ?lb1"
    by (simp add: ext0_def DetermineRenderedCodePoint_def placeRendered_def
          setCellAndAdvanceIndex_def lineLen_def NewLineBuilder_def line4_def updCell_def
          writeCell_def cellOf_def word_le_nat_alt word_less_nat_alt)
  have h5: "startColumn ?lb1 \<le> column ?lb1" by (simp add: word_le_nat_alt)
  have h6: "cellIndex ?lb1 < lineLen ?lb1" by (simp add: lineLen_def word_less_nat_alt)
  have h7: "length (cells (line ?lb1)) < 2 ^ 63" by simp
  from wide_code_point_write[of ext0 19990 "[120, 19990, 121]" "()" "[120]" "[121]" 7 ?lb ?lb1,
      OF h1 h2 h3 h4 h5 h6 h7]
  have a: "AppendWithStyle ext0 ?lb 7 [120, 19990, 121] ()
     = Inr \<lparr>line = \<lparr>cells =
              [\<lparr>codePoints = [120], style = \<lparr>componentId = 7, attr = 0, acs_char = 0\<rparr>\<rparr>,
               \<lparr>codePoints = [19990], style = \<lparr>componentId = 7, attr = 0, acs_char = 0\<rparr>\<rparr>,
               \<lparr>codePoints = [], style = \<lparr>componentId = 0, attr = 0, acs_char = 0\<rparr>\<rparr>,
               \<lparr>codePoints = [121], style = \<lparr>componentId = 7, attr = 0, acs_char = 0\<rparr>\<rparr>]\<rparr>,
            cellIndex = 4, column = 5, startColumn = 1, config = cfg0\<rparr>"
    by (simp add: ext0_def DetermineRenderedCodePoint_def placeRendered_def
          setCellAndAdvanceIndex_def lineLen_def updCell_def
          writeCell_def resetCell_def cellOf_def word_le_nat_alt word_less_nat_alt)
  let ?lc = "NewLineBuilder lineXY cfg0 1"
  have g3: "Sprintf ext0 [19990] () = [] @ 19990 # []" by (simp add: ext0_def)
  have g4: "appendRunes ext0 0 [] ?lc = Inr ?lc" by simp
  have g5: "startColumn ?lc \<le> column ?lc" by (simp add: NewLineBuilder_def)
  have g6: "cellIndex ?lc < lineLen ?lc" by (simp add: NewLineBuilder_def lineLen_def lineXY_def)
  have g7: "length (cells (line ?lc)) < 2 ^ 63" by (simp add: NewLineBuilder_def lineXY_def)
  have g8: "(0::int) = CMP_NONE ext0" by (simp add: ext0_def)
  from wide_code_point_write[of ext0 19990 "[19990]" "()" "[]" "[]" 0 ?lc ?lc,
      OF h1 h2 g3 g4 g5 g6 g7] g8
  have b: "Append ext0 ?lc [19990] ()
     = Inr \<lparr>line = \<lparr>cells =
              [\<lparr>codePoints = [19990], style = \<lparr>componentId = 0, attr = 0, acs_char = 0\<rparr>\<rparr>,
               \<lparr>codePoints = [], style = \<lparr>componentId = 0, attr = 0, acs_char = 0\<rparr>\<rparr>]\<rparr>,
            cellIndex = 2, column = 3, startColumn = 1, config = cfg0\<rparr>"
    by (simp add: NewLineBuilder_def lineXY_def writeCell_def resetCell_def cellOf_def)
  from a b show ?thesis by simp
qed

text \<open>
  Claim C5. A run of the code on a line holding \<open>x\<close> and \<open>y\<close>, with start
  column 5 and the column counter at 1: appending the one wide code point U+4E16
  advances the column counter to 3, still left of the start column, and yet empties
  the first cell and advances the cell index, because the call of \<open>Clear\<close> that follows
  \<open>setCellAndAdvanceIndex\<close> does not test the start column.
\<close>

theorem wide_code_point_left_of_start_column:
  "column (NewLineBuilder lineXY cfg0 5) < startColumn (NewLineBuilder lineXY cfg0 5) \<and>
   AppendWithStyle ext0 (NewLineBuilder lineXY cfg0 5) 7 [19990] ()
     = Inr \<lparr>line = \<lparr>cells = [cellOf [], cellOf [121]]\<rparr>, cellIndex = 1, column = 3,
            startColumn = 5, config = cfg0\<rparr> \<and>
   cellOf [] \<noteq> cells lineXY ! 0"
  by (simp add: AppendWithStyle_def ext0_def DetermineRenderedCodePoint_def placeRendered_def
        setCellAndAdvanceIndex_def Clear_one lineLen_def NewLineBuilder_def lineXY_def
        cellOf_def resetCell_def word_le_nat_alt word_less_nat_alt)

section \<open>Properties of windows\<close>

lemma wf_window_row:
  assumes "wf_window w" "r < rows w"
  shows "unat r < length (lines w)" and "length (cells (lines w ! unat r)) = unat (cols w)"
proof -
  show a: "unat r < length (lines w)"
    using assms by (simp add: wf_window_def word_less_nat_alt)
  then show "length (cells (lines w ! unat r)) = unat (cols w)"
    using assms(1) by (simp add: wf_window_def list_all_length)
qed

lemma wf_window_Resize:
  assumes "unat (vrows vd) < 2 ^ 63" "unat (vcols vd) < 2 ^ 63"
    and "\<not> (rows w = vrows vd \<and> cols w = vcols vd)"
  shows "wf_window (Resize w vd)"
  using assms by (auto simp: wf_window_def Resize_def NewLine_def list_all_iff)

lemma wf_window_win:
  "unat r < 2 ^ 63 \<Longrightarrow> unat c < 2 ^ 63 \<Longrightarrow> r \<noteq> 0 \<Longrightarrow> wf_window (win r c)"
  unfolding win_def
  by (rule wf_window_Resize) (simp_all add: NewWindow_def)

lemma win_simps:
  "rows (win r c) = r" "cols (win r c) = c" "wconfig (win r c) = cfg0"
  by (simp_all add: win_def Resize_def NewWindow_def)

lemma win_cell: "i < unat r \<Longrightarrow> j < unat c \<Longrightarrow>
  cells (lines (win r c) ! i) ! j = zeroCell"
  by (auto simp: win_def Resize_def NewWindow_def NewLine_def)

lemma last_row_less: "\<not> (n::uint) < 3 \<Longrightarrow> n - 1 < n" "\<not> (n::uint) < 3 \<Longrightarrow> unat (n - 1) = unat n - 1"
  by unat_arith+

lemma Window_LineBuilder_Inr:
  "wf_window w \<Longrightarrow> r < rows w \<Longrightarrow> sc \<noteq> 0 \<Longrightarrow>
   Window_LineBuilder w r sc = Inr (NewLineBuilder (lines w ! unat r) (wconfig w) sc)"
  using wf_window_row(1)[of w r] by (simp add: Window_LineBuilder_def)

lemma storeLine_same: "line lb = lines w ! unat r \<Longrightarrow> storeLine w r lb = w"
  by (simp add: storeLine_def)

lemma footer_index_wraps:
  fixes c m :: uint
  assumes "unat c < 2 ^ 63" "unat m < 2 ^ 63" "unat c < unat m + 2"
  shows "c < c - (2 + m)"
proof -
  have k: "unat (2 + m) = 2 + unat m"
    using assms(2) by (simp add: unat_plus_if')
  have "unat (c - (2 + m)) = unat c + 2 ^ 64 - (2 + unat m)"
    using assms(3) k by (simp add: unat_sub_if')
  then show ?thesis
    using assms by (simp add: word_less_nat_alt)
qed

lemma footer_index_fits:
  fixes c m :: uint
  assumes "unat m + 2 \<le> unat c" "unat c < 2 ^ 63"
  shows "\<not> c + 2 < m" and "unat (c - (2 + m)) = unat c - 2 - unat m"
    and "unat (c - (2 + m) + 1) = unat c - 2 - unat m + 1"
proof -
  have k: "unat (2 + m) = 2 + unat m"
    using assms by (simp add: unat_plus_if')
  have c2: "unat (c + 2) = unat c + 2"
    using assms by (simp add: unat_plus_if')
  show "\<not> c + 2 < m" using assms c2 by (simp add: word_less_nat_alt)
  show d: "unat (c - (2 + m)) = unat c - 2 - unat m"
    using assms k by (simp add: unat_sub_if')
  have "unat (x + 1) = unat x + 1" if "unat x < 2 ^ 63" for x :: uint
    using that by (simp add: unat_plus_if')
  from this[of "c - (2 + m)"] show "unat (c - (2 + m) + 1) = unat c - 2 - unat m + 1"
    using assms(2) by (simp only: d)
qed

lemma SetFooter_skip:
  assumes "wf_window w" and "s = Sprintf ext (32 # format @ [32]) args"
    and "length s < 2 ^ 63" and "unat (cols w) < length s + 2"
    and "(word_of_int (GetInt_CV_TAB_WIDTH (wconfig w)) :: uint) \<noteq> 0 \<or> 9 \<notin> set s"
  shows "SetFooter ext w cid format args = Inr w"
proof (cases "rows w < 3 \<or> cols w < 3")
  case True
  then show ?thesis by (simp add: SetFooter_def setHeader_def)
next
  case False
  then have r3: "\<not> rows w < 3" and c3: "\<not> cols w < 3" by simp_all
  let ?r = "rows w - 1"
  let ?m = "of_nat (length s) :: uint"
  have m: "unat ?m = length s" using assms(3) by (simp add: unat_of_nat)
  have r1: "\<not> rows w < 1" using r3 by unat_arith
  let ?lb = "NewLineBuilder (lines w ! unat ?r) (wconfig w) 1"
  have lbq: "Window_LineBuilder w ?r 1 = Inr ?lb"
    using assms(1) last_row_less(1)[OF r3] by (simp add: Window_LineBuilder_Inr)
  show ?thesis
  proof (cases "cols w + 2 < ?m")
    case True
    then show ?thesis
      using False r1 lbq by (simp add: SetFooter_def setHeader_def assms(2)[symmetric])
  next
    case nf: False
    let ?lb2 = "?lb\<lparr>cellIndex := cols w - (2 + ?m), column := cols w - (2 + ?m) + 1\<rparr>"
    have len: "length (cells (lines w ! unat ?r)) = unat (cols w)"
      using wf_window_row(2)[OF assms(1) last_row_less(1)[OF r3]] .
    have c63: "unat (cols w) < 2 ^ 63" using assms(1) by (simp add: wf_window_def)
    have "cols w < cols w - (2 + ?m)"
      using c63 assms(3,4) m by (intro footer_index_wraps) simp_all
    then have "lineLen ?lb2 < cellIndex ?lb2"
      by (simp add: lineLen_def NewLineBuilder_def len)
    moreover have "(word_of_int (GetInt_CV_TAB_WIDTH (config ?lb2)) :: uint) \<noteq> 0 \<or> 9 \<notin> set s"
      using assms(5) by (simp add: NewLineBuilder_def)
    ultimately have "appendRunes ext cid s ?lb2 = Inr ?lb2"
      by (rule appendRunes_beyond)
    moreover have "storeLine w ?r ?lb2 = w"
      by (intro storeLine_same) (simp add: NewLineBuilder_def)
    ultimately show ?thesis
      using False r1 lbq nf
      by (simp add: SetFooter_def setHeader_def AppendWithStyle_def assms(2)[symmetric] Let_def)
  qed
qed

lemma SetFooter_fits:
  assumes "wf_window w" and "s = Sprintf ext (32 # format @ [32]) args"
    and "\<not> rows w < 3" and "length s + 2 \<le> unat (cols w)"
    and "\<forall>c\<in>set s. IsPrint ext c \<and> RuneWidth ext c = 1"
    and c3: "\<not> cols w < 3"
  shows "\<exists>l'. SetFooter ext w cid format args
                = Inr (w\<lparr>lines := (lines w)[unat (rows w) - 1 := l']\<rparr>) \<and>
              length (cells l') = unat (cols w) \<and>
              (\<forall>j < unat (cols w).
                 cells l' ! j =
                   (if unat (cols w) - 2 - length s \<le> j \<and> j < unat (cols w) - 2
                    then writeCell (s ! (j - (unat (cols w) - 2 - length s))) cid
                           (cells (lines w ! (unat (rows w) - 1)) ! j)
                    else cells (lines w ! (unat (rows w) - 1)) ! j))"
proof -
  let ?r = "rows w - 1"
  let ?m = "of_nat (length s) :: uint"
  let ?k = "unat (cols w) - 2 - length s"
  have c63: "unat (cols w) < 2 ^ 63" using assms(1) by (simp add: wf_window_def)
  have m: "unat ?m = length s" using assms(4) c63 by (simp add: unat_of_nat)
  have r1: "\<not> rows w < 1" using assms(3) by unat_arith
  have ur: "unat ?r = unat (rows w) - 1" using assms(3) by (rule last_row_less(2))
  let ?l = "lines w ! unat ?r"
  let ?lb = "NewLineBuilder ?l (wconfig w) 1"
  have lbq: "Window_LineBuilder w ?r 1 = Inr ?lb"
    using assms(1) last_row_less(1)[OF assms(3)] by (simp add: Window_LineBuilder_Inr)
  have len: "length (cells ?l) = unat (cols w)"
    using wf_window_row(2)[OF assms(1) last_row_less(1)[OF assms(3)]] .
  have f: "\<not> cols w + 2 < ?m" "unat (cols w - (2 + ?m)) = ?k"
    "unat (cols w - (2 + ?m) + 1) = ?k + 1"
    using footer_index_fits[of ?m "cols w"] assms(4) c63 m by simp_all
  let ?lb2 = "?lb\<lparr>cellIndex := cols w - (2 + ?m), column := cols w - (2 + ?m) + 1\<rparr>"
  have q2: "startColumn ?lb2 \<le> column ?lb2"
    using f(3) by (simp add: NewLineBuilder_def word_le_nat_alt)
  have q3: "unat (column ?lb2) + length s < 2 ^ 64"
    using f(3) assms(4) c63 by (simp add: NewLineBuilder_def)
  have q4: "unat (cellIndex ?lb2) + length s \<le> length (cells (line ?lb2))"
    using f(2) assms(4) len by (simp add: NewLineBuilder_def)
  have q5: "length (cells (line ?lb2)) < 2 ^ 63"
    using len c63 by (simp add: NewLineBuilder_def)
  from appendRunes_plain[of s ext ?lb2 cid, OF assms(5) q2 q3 q4 q5] obtain l' where
    run: "appendRunes ext cid s ?lb2
            = Inr (?lb2\<lparr>line := l', cellIndex := cellIndex ?lb2 + of_nat (length s),
                        column := column ?lb2 + of_nat (length s)\<rparr>)"
    and ll: "length (cells l') = length (cells (line ?lb2))"
    and pt: "\<forall>j < length (cells (line ?lb2)).
               cells l' ! j =
                 (if unat (cellIndex ?lb2) \<le> j \<and> j < unat (cellIndex ?lb2) + length s
                  then writeCell (s ! (j - unat (cellIndex ?lb2))) cid (cells (line ?lb2) ! j)
                  else cells (line ?lb2) ! j)"
    by blast
  have res: "SetFooter ext w cid format args
          = Inr (w\<lparr>lines := (lines w)[unat (rows w) - 1 := l']\<rparr>)"
    using assms(3) c3 r1 lbq f(1) run
    by (simp add: SetFooter_def setHeader_def AppendWithStyle_def assms(2)[symmetric] Let_def
        storeLine_def ur)
  have k: "?k + length s = unat (cols w) - 2" using assms(4) by simp
  have e1: "cellIndex ?lb2 = cols w - (2 + ?m)" by (simp add: NewLineBuilder_def)
  have e2: "line ?lb2 = ?l" by (simp add: NewLineBuilder_def)
  from pt have "\<forall>j < length (cells ?l).
               cells l' ! j =
                 (if unat (cols w - (2 + ?m)) \<le> j \<and> j < unat (cols w - (2 + ?m)) + length s
                  then writeCell (s ! (j - unat (cols w - (2 + ?m)))) cid (cells ?l ! j)
                  else cells ?l ! j)"
    by (simp only: e1 e2)
  then have "\<forall>j < unat (cols w).
               cells l' ! j =
                 (if ?k \<le> j \<and> j < unat (cols w) - 2
                  then writeCell (s ! (j - ?k)) cid (cells ?l ! j)
                  else cells ?l ! j)"
    by (simp only: f(2) len k)
  then have "\<forall>j < unat (cols w).
          cells l' ! j =
            (if ?k \<le> j \<and> j < unat (cols w) - 2
             then writeCell (s ! (j - ?k)) cid (cells (lines w ! (unat (rows w) - 1)) ! j)
             else cells (lines w ! (unat (rows w) - 1)) ! j)"
    by (simp only: ur)
  moreover have "length (cells l') = unat (cols w)"
    using ll by (simp only: e2 len)
  ultimately show ?thesis using res by blast
qed

text \<open>
  Claim C9. On a window with fewer than 3 rows or fewer than 3 columns,
  \<open>SetTitle\<close>, \<open>SetFooter\<close> and \<open>DrawBorder\<close> return without an error and leave the
  window, hence every cell, as it was.
\<close>

theorem small_window_noop:
  "rows w < 3 \<or> cols w < 3 \<Longrightarrow>
     SetTitle ext w cid format args = Inr w \<and>
     SetFooter ext w cid format args = Inr w \<and>
     DrawBorder ext w = Inr w"
  by (simp add: SetTitle_def SetFooter_def setHeader_def DrawBorder_def)

theorem small_window_noop_witness:
  "cols (win 5 2) < 3 \<and>
   SetTitle ext0 (win 5 2) 1 [104, 105] () = Inr (win 5 2) \<and>
   SetFooter ext0 (win 5 2) 1 [104, 105] () = Inr (win 5 2) \<and>
   DrawBorder ext0 (win 5 2) = Inr (win 5 2)"
proof -
  have h: "rows (win 5 2) < 3 \<or> cols (win 5 2) < 3"
    by (simp add: win_def Resize_def NewWindow_def)
  show ?thesis
    using small_window_noop[of "win 5 2" ext0 1 "[104, 105]" "()", OF h]
    by (simp add: win_def Resize_def NewWindow_def)
qed

text \<open>
  Claim C4, as stated, fails: resizing a new window to one row and one column
  changes the dimensions, and the cell it allocates holds no code point, not a
  space.
\<close>

theorem Resize_allocates_empty_cells:
  "\<not> (rows (NewWindow [] cfg0) = vrows \<lparr>vrows = 1, vcols = 1\<rparr> \<and>
       cols (NewWindow [] cfg0) = vcols \<lparr>vrows = 1, vcols = 1\<rparr>) \<and>
   codePoints (cells (lines (Resize (NewWindow [] cfg0) \<lparr>vrows = 1, vcols = 1\<rparr>) ! 0) ! 0)
     \<noteq> [32]"
  by (simp add: Resize_def NewWindow_def NewLine_def zeroCell_def)

text \<open>
  Claim C4, amended. \<open>Resize\<close> to the current dimensions changes nothing. To other
  dimensions it records them and allocates that many lines of that many cells, each
  cell with an empty code point sequence and the zero style (component 0, attribute
  0, no glyph override); the cursor and the origin are kept.
\<close>

theorem Resize_grid:
  "(rows w = vrows vd \<and> cols w = vcols vd \<longrightarrow> Resize w vd = w) \<and>
   (\<not> (rows w = vrows vd \<and> cols w = vcols vd) \<longrightarrow>
      rows (Resize w vd) = vrows vd \<and> cols (Resize w vd) = vcols vd \<and>
      length (lines (Resize w vd)) = unat (vrows vd) \<and>
      (\<forall>l \<in> set (lines (Resize w vd)).
         length (cells l) = unat (vcols vd) \<and>
         (\<forall>cell \<in> set (cells l).
            codePoints cell = [] \<and>
            style cell = \<lparr>componentId = 0, attr = 0, acs_char = 0\<rparr>)) \<and>
      cursor (Resize w vd) = cursor w \<and>
      startRow (Resize w vd) = startRow w \<and> startCol (Resize w vd) = startCol w)"
  by (auto simp: Resize_def NewLine_def zeroCell_def)

theorem Resize_grid_witness:
  "Resize (win 2 3) \<lparr>vrows = 2, vcols = 3\<rparr> = win 2 3 \<and>
   lines (Resize (win 2 3) \<lparr>vrows = 1, vcols = 2\<rparr>)
     = [\<lparr>cells = [\<lparr>codePoints = [], style = \<lparr>componentId = 0, attr = 0, acs_char = 0\<rparr>\<rparr>,
                  \<lparr>codePoints = [], style = \<lparr>componentId = 0, attr = 0, acs_char = 0\<rparr>\<rparr>]\<rparr>]"
proof -
  have a: "rows (win 2 3) = vrows \<lparr>vrows = 2, vcols = 3\<rparr> \<and>
           cols (win 2 3) = vcols \<lparr>vrows = 2, vcols = 3\<rparr>"
    by (simp add: win_simps)
  have b: "\<not> (rows (win 2 3) = vrows \<lparr>vrows = 1, vcols = 2\<rparr> \<and>
               cols (win 2 3) = vcols \<lparr>vrows = 1, vcols = 2\<rparr>)"
    by (simp add: win_simps)
  from Resize_grid[of "win 2 3" "\<lparr>vrows = 2, vcols = 3\<rparr>"] a
  have 1: "Resize (win 2 3) \<lparr>vrows = 2, vcols = 3\<rparr> = win 2 3" by blast
  from Resize_grid[of "win 2 3" "\<lparr>vrows = 1, vcols = 2\<rparr>"] b
  have n: "length (lines (Resize (win 2 3) \<lparr>vrows = 1, vcols = 2\<rparr>)) = unat (1::uint)"
    and c: "\<forall>l \<in> set (lines (Resize (win 2 3) \<lparr>vrows = 1, vcols = 2\<rparr>)).
         length (cells l) = unat (2::uint) \<and>
         (\<forall>cell \<in> set (cells l).
            codePoints cell = [] \<and>
            style cell = \<lparr>componentId = 0, attr = 0, acs_char = 0\<rparr>)"
    by simp_all
  from n obtain l where l: "lines (Resize (win 2 3) \<lparr>vrows = 1, vcols = 2\<rparr>) = [l]"
    by (cases "lines (Resize (win 2 3) \<lparr>vrows = 1, vcols = 2\<rparr>)") auto
  with c have lc: "length (cells l) = 2" and cc: "\<forall>cell \<in> set (cells l).
            codePoints cell = [] \<and>
            style cell = \<lparr>componentId = 0, attr = 0, acs_char = 0\<rparr>"
    by simp_all
  from lc obtain x y where xy: "cells l = [x, y]"
    by (cases "cells l"; simp) (metis Suc_length_conv length_0_conv)
  with cc have "x = \<lparr>codePoints = [], style = \<lparr>componentId = 0, attr = 0, acs_char = 0\<rparr>\<rparr>"
    "y = \<lparr>codePoints = [], style = \<lparr>componentId = 0, attr = 0, acs_char = 0\<rparr>\<rparr>"
    by simp_all
  with xy have "l = \<lparr>cells = [\<lparr>codePoints = [], style = \<lparr>componentId = 0, attr = 0, acs_char = 0\<rparr>\<rparr>,
                  \<lparr>codePoints = [], style = \<lparr>componentId = 0, attr = 0, acs_char = 0\<rparr>\<rparr>]\<rparr>"
    by (cases l) simp
  with 1 l show ?thesis by simp
qed

text \<open>
  Claim C3, as stated, fails: on a window of one row and one column \<open>SetRow\<close> with
  start column 1, which is not below the column count, succeeds and writes the
  row.
\<close>

theorem SetRow_start_column_beyond_width:
  "cols (win 1 1) \<le> 1 \<and>
   SetRow ext0 (win 1 1) 0 1 7 [120] ()
     = Inr ((win 1 1)\<lparr>lines := [\<lparr>cells = [\<lparr>codePoints = [120],
              style = \<lparr>componentId = 7, attr = 0, acs_char = 0\<rparr>\<rparr>]\<rparr>]\<rparr>)"
  by (simp add: win_def Resize_def NewWindow_def NewLine_def zeroCell_def SetRow_def
        Window_LineBuilder_def NewLineBuilder_def AppendWithStyle_def ext0_def
        DetermineRenderedCodePoint_def placeRendered_def setCellAndAdvanceIndex_def
        lineLen_def updCell_def writeCell_def storeLine_def)

text \<open>
  Claim C3, amended. A row index not below the row count makes \<open>SetCursor\<close>,
  \<open>SetSelectedRow\<close> and \<open>SetRow\<close> fail with the row error; with a valid row,
  \<open>SetCursor\<close> fails exactly when the column index is not below the column count, and
  \<open>SetRow\<close> fails when the start column is zero. On a well-formed window with a valid
  row, \<open>SetSelectedRow\<close> succeeds, and \<open>SetRow\<close> succeeds for every non-zero start
  column, whatever its relation to the column count (given a non-zero tab width or
  a text without tabs).
\<close>

theorem index_checks:
  "(rows w \<le> r \<longrightarrow>
      SetCursor w r c = Inl (InvalidRowIndex r (rows w)) \<and>
      SetSelectedRow ext w r active = Inl (InvalidRowIndex r (rows w)) \<and>
      SetRow ext w r sc cid format args = Inl (InvalidRowIndex r (rows w))) \<and>
   (r < rows w \<and> cols w \<le> c \<longrightarrow> SetCursor w r c = Inl (InvalidColIndex c (cols w))) \<and>
   (r < rows w \<and> c < cols w \<longrightarrow>
      SetCursor w r c = Inr (w\<lparr>cursor := Some \<lparr>row = r, col = c\<rparr>\<rparr>)) \<and>
   (r < rows w \<and> sc = 0 \<longrightarrow> SetRow ext w r sc cid format args = Inl ColumnNotPositive) \<and>
   (wf_window w \<and> r < rows w \<longrightarrow> (\<exists>w'. SetSelectedRow ext w r active = Inr w')) \<and>
   (wf_window w \<and> r < rows w \<and> sc \<noteq> 0 \<and>
    ((word_of_int (GetInt_CV_TAB_WIDTH (wconfig w)) :: uint) \<noteq> 0 \<or>
       9 \<notin> set (Sprintf ext format args)) \<longrightarrow>
      (\<exists>w'. SetRow ext w r sc cid format args = Inr w'))"
proof (intro conjI impI)
  assume "rows w \<le> r"
  then show "SetCursor w r c = Inl (InvalidRowIndex r (rows w))"
    "SetSelectedRow ext w r active = Inl (InvalidRowIndex r (rows w))"
    "SetRow ext w r sc cid format args = Inl (InvalidRowIndex r (rows w))"
    by (simp_all add: SetCursor_def SetSelectedRow_def SetRow_def Window_LineBuilder_def)
next
  assume "r < rows w \<and> cols w \<le> c"
  then show "SetCursor w r c = Inl (InvalidColIndex c (cols w))"
    by (auto simp: SetCursor_def)
next
  assume "r < rows w \<and> c < cols w"
  then show "SetCursor w r c = Inr (w\<lparr>cursor := Some \<lparr>row = r, col = c\<rparr>\<rparr>)"
    by (auto simp: SetCursor_def)
next
  assume "r < rows w \<and> sc = 0"
  then show "SetRow ext w r sc cid format args = Inl ColumnNotPositive"
    by (auto simp: SetRow_def Window_LineBuilder_def)
next
  assume "wf_window w \<and> r < rows w"
  then show "\<exists>w'. SetSelectedRow ext w r active = Inr w'"
    using wf_window_row(1)[of w r] by (auto simp: SetSelectedRow_def Let_def)
next
  assume a: "wf_window w \<and> r < rows w \<and> sc \<noteq> 0 \<and>
    ((word_of_int (GetInt_CV_TAB_WIDTH (wconfig w)) :: uint) \<noteq> 0 \<or>
       9 \<notin> set (Sprintf ext format args))"
  let ?lb = "NewLineBuilder (lines w ! unat r) (wconfig w) sc"
  from a have l: "Window_LineBuilder w r sc = Inr ?lb"
    by (simp add: Window_LineBuilder_Inr)
  from a have "(word_of_int (GetInt_CV_TAB_WIDTH (config ?lb)) :: uint) \<noteq> 0 \<or>
       9 \<notin> set (Sprintf ext format args)"
    by (simp add: NewLineBuilder_def)
  from AppendWithStyle_Inr[OF this, of cid] obtain lb' where
    "AppendWithStyle ext ?lb cid format args = Inr lb'" by blast
  with l show "\<exists>w'. SetRow ext w r sc cid format args = Inr w'"
    by (simp add: SetRow_def)
qed

theorem index_checks_witness:
  "SetCursor (win 2 3) 2 0 = Inl (InvalidRowIndex 2 2) \<and>
   SetSelectedRow ext0 (win 2 3) 2 True = Inl (InvalidRowIndex 2 2) \<and>
   SetRow ext0 (win 2 3) 2 1 7 [120] () = Inl (InvalidRowIndex 2 2) \<and>
   SetCursor (win 2 3) 1 3 = Inl (InvalidColIndex 3 3) \<and>
   SetCursor (win 2 3) 1 2 = Inr ((win 2 3)\<lparr>cursor := Some \<lparr>row = 1, col = 2\<rparr>\<rparr>) \<and>
   SetRow ext0 (win 2 3) 1 0 7 [120] () = Inl ColumnNotPositive \<and>
   (\<exists>w'. SetSelectedRow ext0 (win 2 3) 1 False = Inr w') \<and>
   (\<exists>w'. SetRow ext0 (win 2 3) 1 9 7 [120] () = Inr w')"
proof -
  have wf: "wf_window (win 2 3)" by (rule wf_window_win) simp_all
  have t: "(word_of_int (GetInt_CV_TAB_WIDTH (wconfig (win 2 3))) :: uint) \<noteq> 0"
    by (simp add: win_simps cfg0_def)
  have 1: "SetCursor (win 2 3) 2 0 = Inl (InvalidRowIndex 2 2) \<and>
   SetSelectedRow ext0 (win 2 3) 2 True = Inl (InvalidRowIndex 2 2) \<and>
   SetRow ext0 (win 2 3) 2 1 7 [120] () = Inl (InvalidRowIndex 2 2)"
    using index_checks[of "win 2 3" 2 0 ext0 True 1 7 "[120]" "()"] by (simp add: win_simps)
  have 2: "SetCursor (win 2 3) 1 3 = Inl (InvalidColIndex 3 3)"
    using index_checks[of "win 2 3" 1 3 ext0 True 1 7 "[120]" "()"] by (simp add: win_simps)
  have 3: "SetCursor (win 2 3) 1 2 = Inr ((win 2 3)\<lparr>cursor := Some \<lparr>row = 1, col = 2\<rparr>\<rparr>) \<and>
     SetRow ext0 (win 2 3) 1 0 7 [120] () = Inl ColumnNotPositive"
    using index_checks[of "win 2 3" 1 2 ext0 True 0 7 "[120]" "()"] by (simp add: win_simps)
  have 4: "(\<exists>w'. SetSelectedRow ext0 (win 2 3) 1 False = Inr w') \<and>
     (\<exists>w'. SetRow ext0 (win 2 3) 1 9 7 [120] () = Inr w')"
    using index_checks[of "win 2 3" 1 2 ext0 False 9 7 "[120]" "()"] wf t
    by (simp add: win_simps)
  from 1 2 3 4 show ?thesis by blast
qed

text \<open>
  Claim C6, as stated, fails: on a window of 3 rows and 5 columns the padded footer
  of \<open>abc\<close> has 5 characters, which fit in the 5 columns, and \<open>SetFooter\<close> writes
  nothing.
\<close>

theorem SetFooter_fitting_text_not_written:
  "length (Sprintf ext0 (32 # [97, 98, 99] @ [32]) ()) \<le> unat (cols (win 3 5)) \<and>
   SetFooter ext0 (win 3 5) 1 [97, 98, 99] () = Inr (win 3 5)"
proof -
  have "wf_window (win 3 5)" by (rule wf_window_win) simp_all
  then have "SetFooter ext0 (win 3 5) 1 [97, 98, 99] () = Inr (win 3 5)"
    by (rule SetFooter_skip[where s = "[32, 97, 98, 99, 32]"])
       (simp_all add: ext0_def win_simps cfg0_def)
  then show ?thesis by (simp add: ext0_def win_simps)
qed

text \<open>
  Claim C6, amended. Let \<open>s\<close> be the formatted padded text, of \<open>n\<close> characters
  (fewer than \<open>2 ^ 63\<close>), on a well-formed window. When \<open>n + 2\<close> exceeds the column
  count (so also when \<open>n\<close> does), and the tab width is not zero or \<open>s\<close> has no tab,
  \<open>SetFooter\<close> returns no error and leaves the window unchanged. When the window has at
  least 3 rows and 3 columns, \<open>n + 2\<close> is at most the column count and every
  character of \<open>s\<close> is printable of width 1, \<open>SetFooter\<close> returns no error and changes
  only the bottom row: its cells \<open>cols - 2 - n\<close> up to \<open>cols - 3\<close> hold the characters of
  \<open>s\<close> in order, all of them, and its other cells are unchanged.
\<close>

theorem SetFooter_right_justified:
  assumes "wf_window w" and "s = Sprintf ext (32 # format @ [32]) args"
    and "length s < 2 ^ 63"
  shows "(unat (cols w) < length s + 2 \<and>
          ((word_of_int (GetInt_CV_TAB_WIDTH (wconfig w)) :: uint) \<noteq> 0 \<or> 9 \<notin> set s) \<longrightarrow>
            SetFooter ext w cid format args = Inr w) \<and>
         (\<not> rows w < 3 \<and> \<not> cols w < 3 \<and> length s + 2 \<le> unat (cols w) \<and>
          (\<forall>c\<in>set s. IsPrint ext c \<and> RuneWidth ext c = 1) \<longrightarrow>
            (\<exists>l'. SetFooter ext w cid format args
                     = Inr (w\<lparr>lines := (lines w)[unat (rows w) - 1 := l']\<rparr>) \<and>
                   length (cells l') = unat (cols w) \<and>
                   (\<forall>j < unat (cols w).
                      cells l' ! j =
                        (if unat (cols w) - 2 - length s \<le> j \<and> j < unat (cols w) - 2
                         then writeCell (s ! (j - (unat (cols w) - 2 - length s))) cid
                                (cells (lines w ! (unat (rows w) - 1)) ! j)
                         else cells (lines w ! (unat (rows w) - 1)) ! j))))"
proof (intro conjI impI)
  assume "unat (cols w) < length s + 2 \<and>
          ((word_of_int (GetInt_CV_TAB_WIDTH (wconfig w)) :: uint) \<noteq> 0 \<or> 9 \<notin> set s)"
  then show "SetFooter ext w cid format args = Inr w"
    using SetFooter_skip[OF assms(1,2,3)] by blast
next
  assume a: "\<not> rows w < 3 \<and> \<not> cols w < 3 \<and> length s + 2 \<le> unat (cols w) \<and>
          (\<forall>c\<in>set s. IsPrint ext c \<and> RuneWidth ext c = 1)"
  then show "\<exists>l'. SetFooter ext w cid format args
                     = Inr (w\<lparr>lines := (lines w)[unat (rows w) - 1 := l']\<rparr>) \<and>
                   length (cells l') = unat (cols w) \<and>
                   (\<forall>j < unat (cols w).
                      cells l' ! j =
                        (if unat (cols w) - 2 - length s \<le> j \<and> j < unat (cols w) - 2
                         then writeCell (s ! (j - (unat (cols w) - 2 - length s))) cid
                                (cells (lines w ! (unat (rows w) - 1)) ! j)
                         else cells (lines w ! (unat (rows w) - 1)) ! j))"
    using SetFooter_fits[OF assms(1,2), of cid] by blast
qed

theorem SetFooter_right_justified_witness:
  "SetFooter ext0 (win 3 4) 1 [97] () = Inr (win 3 4) \<and>
   (\<exists>l'. SetFooter ext0 (win 3 7) 1 [97] ()
            = Inr ((win 3 7)\<lparr>lines := (lines (win 3 7))[2 := l']\<rparr>) \<and>
          length (cells l') = 7 \<and>
          cells l' ! 1 = zeroCell \<and>
          cells l' ! 2 = writeCell 32 1 zeroCell \<and>
          cells l' ! 3 = writeCell 97 1 zeroCell \<and>
          cells l' ! 4 = writeCell 32 1 zeroCell \<and>
          cells l' ! 5 = zeroCell)"
proof -
  have w4: "wf_window (win 3 4)" and w7: "wf_window (win 3 7)"
    by (rule wf_window_win; simp)+
  have s: "[32, 97, 32] = Sprintf ext0 (32 # [97] @ [32]) ()" by (simp add: ext0_def)
  have l: "length [32, 97, 32 :: int] < 2 ^ 63" by simp
  have p: "\<forall>c\<in>set [32, 97, 32]. IsPrint ext0 c \<and> RuneWidth ext0 c = 1"
    by (simp add: ext0_def)
  have c: "\<forall>j<5. cells (lines (win 3 7) ! 2) ! Suc j = zeroCell"
    by (simp add: win_cell)
  have a: "SetFooter ext0 (win 3 4) 1 [97] () = Inr (win 3 4)"
    using SetFooter_right_justified[OF w4 s l, of 1] by (simp add: win_simps cfg0_def)
  from SetFooter_right_justified[OF w7 s l, of 1] p obtain l' where
    r: "SetFooter ext0 (win 3 7) 1 [97] ()
            = Inr ((win 3 7)\<lparr>lines := (lines (win 3 7))[2 := l']\<rparr>)"
    and n: "length (cells l') = 7"
    and q: "\<forall>j < 7. cells l' ! j =
                        (if 2 \<le> j \<and> j < 5
                         then writeCell ([32, 97, 32] ! (j - 2)) 1
                                (cells (lines (win 3 7) ! 2) ! j)
                         else cells (lines (win 3 7) ! 2) ! j)"
    by (auto simp: win_simps)
  have "cells l' ! 1 = zeroCell" "cells l' ! 2 = writeCell 32 1 zeroCell"
    "cells l' ! 3 = writeCell 97 1 zeroCell" "cells l' ! 4 = writeCell 32 1 zeroCell"
    "cells l' ! 5 = zeroCell"
    using q[rule_format, of 1] q[rule_format, of 2] q[rule_format, of 3]
      q[rule_format, of 4] q[rule_format, of 5]
    by (simp_all add: win_cell)
  with a r n show ?thesis by blast
qed

section \<open>Properties of the key-sequence resolver\<close>

lemma scan_all_prefix:
  "(\<And>i. 0 < i \<Longrightarrow> i \<le> length r \<Longrightarrow> snd (kb vh (p @ take i r))) \<Longrightarrow> scan kb vh p r = Ambiguous"
proof (induction r arbitrary: p)
  case Nil
  show ?case by simp
next
  case (Cons c r)
  have "snd (kb vh (p @ take 1 (c # r)))" by (rule Cons.prems) simp_all
  then have h: "snd (kb vh (p @ [c]))" by simp
  have "scan kb vh (p @ [c]) r = Ambiguous"
  proof (rule Cons.IH)
    fix i assume "0 < i" "i \<le> length r"
    then have "snd (kb vh (p @ take (Suc i) (c # r)))" by (intro Cons.prems) simp_all
    then show "snd (kb vh ((p @ [c]) @ take i r))" by simp
  qed
  moreover obtain b0 where "kb vh (p @ [c]) = (b0, True)" using h by (cases "kb vh (p @ [c])") auto
  ultimately show ?case by simp
qed

lemma scan_decisive_at_end:
  "r \<noteq> [] \<Longrightarrow> (\<And>i. 0 < i \<Longrightarrow> i < length r \<Longrightarrow> snd (kb vh (p @ take i r))) \<Longrightarrow>
   kb vh (p @ r) = (b, False) \<Longrightarrow> scan kb vh p r = Decisive (p @ r) b []"
proof (induction r arbitrary: p)
  case Nil
  then show ?case by simp
next
  case (Cons c r)
  show ?case
  proof (cases "r = []")
    case True
    with Cons.prems(3) show ?thesis by simp
  next
    case False
    have "snd (kb vh (p @ take 1 (c # r)))" using False by (intro Cons.prems(2)) simp_all
    then have h: "snd (kb vh (p @ [c]))" by simp
    have "scan kb vh (p @ [c]) r = Decisive ((p @ [c]) @ r) b []"
    proof (rule Cons.IH[OF False])
      fix i assume "0 < i" "i < length r"
      then have "snd (kb vh (p @ take (Suc i) (c # r)))" by (intro Cons.prems(2)) simp_all
      then show "snd (kb vh ((p @ [c]) @ take i r))" by simp
    next
      show "kb vh ((p @ [c]) @ r) = (b, False)" using Cons.prems(3) by simp
    qed
    moreover obtain b0 where "kb vh (p @ [c]) = (b0, True)"
      using h by (cases "kb vh (p @ [c])") auto
    ultimately show ?thesis by simp
  qed
qed

lemma Process_ambiguous:
  assumes "s \<noteq> []" "\<And>i. 0 < i \<Longrightarrow> i \<le> length s \<Longrightarrow> snd (kb vh (take i s))"
  shows "Process vh \<lparr>keyBindings = kb, buffer = s\<rparr>
           = Some ((Action ActionNone, []), \<lparr>keyBindings = kb, buffer = s\<rparr>)"
proof -
  obtain c cs where s: "s = c # cs" using assms(1) by (cases s) auto
  have "scan kb vh [] s = Ambiguous" using assms(2) by (intro scan_all_prefix) simp
  then have "scan kb vh [] (c # cs) = Ambiguous" by (simp only: s)
  then show ?thesis
    by (subst Process.simps) (simp add: s del: scan.simps)
qed

lemma Process_decisive_at_end:
  assumes "s = c # cs" "\<And>i. 0 < i \<Longrightarrow> i < length s \<Longrightarrow> snd (kb vh (take i s))"
    "kb vh s = (newActionBinding a, False)"
  shows "Process vh \<lparr>keyBindings = kb, buffer = s\<rparr>
           = Some (if a = ActionNone then ((Action ActionNone, [c]), \<lparr>keyBindings = kb, buffer = cs\<rparr>)
                   else ((Action a, s), \<lparr>keyBindings = kb, buffer = []\<rparr>))"
proof -
  have "scan kb vh [] s = Decisive ([] @ s) (newActionBinding a) []"
    using assms by (intro scan_decisive_at_end) simp_all
  then have "scan kb vh [] (c # cs) = Decisive (c # cs) (newActionBinding a) []"
    by (simp only: assms(1) append_Nil)
  then show ?thesis
    by (subst Process.simps) (simp add: assms(1) del: scan.simps)
qed

text \<open>
  Claim C7. Let \<open>s\<close> be a keystring bound to an action, every shorter non-empty
  prefix of which the provider reports as a prefix of a longer binding. Fed one
  character per \<open>Append\<close>, the resolver returns the no-op action with the empty
  keystring after each of the first \<open>length s - 1\<close> characters and keeps what it has
  received; the call after the last character returns the bound action with \<open>s\<close> as
  keystring and empties the buffer.
\<close>

theorem Process_multi_key:
  assumes "s \<noteq> []" "\<forall>i. 0 < i \<and> i < length s \<longrightarrow> snd (kb vh (take i s))"
    "kb vh s = (newActionBinding a, False)" "a \<noteq> ActionNone"
  shows "(\<forall>n. 0 < n \<and> n < length s \<longrightarrow>
            Process vh (InputBuffer_Append \<lparr>keyBindings = kb, buffer = take (n - 1) s\<rparr> [s ! (n - 1)])
              = Some ((Action ActionNone, []), \<lparr>keyBindings = kb, buffer = take n s\<rparr>)) \<and>
         Process vh (InputBuffer_Append \<lparr>keyBindings = kb, buffer = butlast s\<rparr> [last s])
              = Some ((Action a, s), \<lparr>keyBindings = kb, buffer = []\<rparr>)"
proof (intro conjI allI impI)
  fix n assume n: "0 < n \<and> n < length s"
  then have t: "take (n - 1) s @ [s ! (n - 1)] = take n s"
    by (metis Suc_pred' less_imp_diff_less take_Suc_conv_app_nth)
  have "Process vh \<lparr>keyBindings = kb, buffer = take n s\<rparr>
          = Some ((Action ActionNone, []), \<lparr>keyBindings = kb, buffer = take n s\<rparr>)"
  proof (rule Process_ambiguous)
    show "take n s \<noteq> []" using n by auto
  next
    fix i assume "0 < i" "i \<le> length (take n s)"
    then have "0 < i \<and> i < length s" "take i (take n s) = take i s" using n by (auto simp: min_def)
    then show "snd (kb vh (take i (take n s)))" using assms(2) by simp
  qed
  then show "Process vh (InputBuffer_Append \<lparr>keyBindings = kb, buffer = take (n - 1) s\<rparr> [s ! (n - 1)])
              = Some ((Action ActionNone, []), \<lparr>keyBindings = kb, buffer = take n s\<rparr>)"
    using t by (simp add: InputBuffer_Append_def)
next
  obtain c cs where s: "s = c # cs" using assms(1) by (cases s) auto
  have "Process vh \<lparr>keyBindings = kb, buffer = s\<rparr> = Some ((Action a, s), \<lparr>keyBindings = kb, buffer = []\<rparr>)"
    using Process_decisive_at_end[of s c cs kb vh a] s assms(2,3,4) by simp
  then show "Process vh (InputBuffer_Append \<lparr>keyBindings = kb, buffer = butlast s\<rparr> [last s])
              = Some ((Action a, s), \<lparr>keyBindings = kb, buffer = []\<rparr>)"
    using assms(1) by (simp add: InputBuffer_Append_def)
qed

theorem Process_multi_key_witness:
  "Process vh0 (InputBuffer_Append (NewInputBuffer kbMulti) ''a'')
     = Some ((Action ActionNone, []), \<lparr>keyBindings = kbMulti, buffer = ''a''\<rparr>) \<and>
   Process vh0 (InputBuffer_Append \<lparr>keyBindings = kbMulti, buffer = ''a''\<rparr> ''b'')
     = Some ((Action ActionNone, []), \<lparr>keyBindings = kbMulti, buffer = ''ab''\<rparr>) \<and>
   Process vh0 (InputBuffer_Append \<lparr>keyBindings = kbMulti, buffer = ''ab''\<rparr> ''c'')
     = Some ((Action ActionFirstLine, ''abc''), \<lparr>keyBindings = kbMulti, buffer = []\<rparr>)"
proof -
  have h1: "''abc'' \<noteq> []" by simp
  have h2: "\<forall>i. 0 < i \<and> i < length ''abc'' \<longrightarrow> snd (kbMulti vh0 (take i ''abc''))"
  proof (intro allI impI)
    fix i :: nat assume "0 < i \<and> i < length ''abc''"
    then have "i = 1 \<or> i = 2" by auto
    then show "snd (kbMulti vh0 (take i ''abc''))" by (auto simp: kbMulti_def)
  qed
  have h3: "kbMulti vh0 ''abc'' = (newActionBinding ActionFirstLine, False)"
    by (simp add: kbMulti_def)
  have h4: "ActionFirstLine \<noteq> ActionNone" by simp
  note T = Process_multi_key[of "''abc''" kbMulti vh0 ActionFirstLine, OF h1 h2 h3 h4]
  from T have a: "0 < (1::nat) \<and> (1::nat) < length ''abc'' \<longrightarrow>
            Process vh0 (InputBuffer_Append \<lparr>keyBindings = kbMulti, buffer = take (1 - 1) ''abc''\<rparr> [''abc'' ! (1 - 1)])
              = Some ((Action ActionNone, []), \<lparr>keyBindings = kbMulti, buffer = take 1 ''abc''\<rparr>)"
    by blast
  from T have b: "0 < (2::nat) \<and> (2::nat) < length ''abc'' \<longrightarrow>
            Process vh0 (InputBuffer_Append \<lparr>keyBindings = kbMulti, buffer = take (2 - 1) ''abc''\<rparr> [''abc'' ! (2 - 1)])
              = Some ((Action ActionNone, []), \<lparr>keyBindings = kbMulti, buffer = take 2 ''abc''\<rparr>)"
    by blast
  from T have c: "Process vh0 (InputBuffer_Append \<lparr>keyBindings = kbMulti, buffer = butlast ''abc''\<rparr> [last ''abc''])
              = Some ((Action ActionFirstLine, ''abc''), \<lparr>keyBindings = kbMulti, buffer = []\<rparr>)"
    by blast
  from a b c show ?thesis by (simp add: NewInputBuffer_def InputBuffer_Append_def)
qed

text \<open>
  Claim C2. When every shorter non-empty prefix of the buffer is ambiguous and the
  whole buffer is reported unbound and not a prefix, \<open>Process\<close> returns the no-op
  action with the first character as keystring, and the resolver it leaves holds
  exactly the remaining characters, on which the next call works.
\<close>

theorem Process_dead_end:
  assumes "\<forall>i. 0 < i \<and> i < length (c # cs) \<longrightarrow> snd (kb vh (take i (c # cs)))"
    and "kb vh (c # cs) = (newActionBinding ActionNone, False)"
  shows "Process vh \<lparr>keyBindings = kb, buffer = c # cs\<rparr>
           = Some ((Action ActionNone, [c]), \<lparr>keyBindings = kb, buffer = cs\<rparr>)"
  using Process_decisive_at_end[of "c # cs" c cs kb vh ActionNone] assms by simp

theorem Process_dead_end_witness:
  "Process vh0 (InputBuffer_Append (NewInputBuffer kbDead) ''ab'')
     = Some ((Action ActionNone, ''a''), \<lparr>keyBindings = kbDead, buffer = ''b''\<rparr>) \<and>
   Process vh0 \<lparr>keyBindings = kbDead, buffer = ''b''\<rparr>
     = Some ((Action ActionNone, ''b''), \<lparr>keyBindings = kbDead, buffer = []\<rparr>)"
proof -
  have h1: "\<forall>i. 0 < i \<and> i < length ''ab'' \<longrightarrow> snd (kbDead vh0 (take i ''ab''))"
  proof (intro allI impI)
    fix i :: nat assume "0 < i \<and> i < length ''ab''"
    then have "i = 1" by auto
    then show "snd (kbDead vh0 (take i ''ab''))" by (simp add: kbDead_def)
  qed
  have h2: "kbDead vh0 ''ab'' = (newActionBinding ActionNone, False)"
    by (simp add: kbDead_def)
  have h3: "\<forall>i. 0 < i \<and> i < length ''b'' \<longrightarrow> snd (kbDead vh0 (take i ''b''))"
    by simp
  have h4: "kbDead vh0 ''b'' = (newActionBinding ActionNone, False)"
    by (simp add: kbDead_def)
  show ?thesis
    using Process_dead_end[of "CHR ''a''" "''b''" kbDead vh0, OF h1 h2]
      Process_dead_end[of "CHR ''b''" "[]" kbDead vh0, OF h3 h4]
    by (simp add: NewInputBuffer_def InputBuffer_Append_def)
qed

text \<open>
  Claim C1. With \<open>a\<close> bound to the keystring \<open>bb\<close>, \<open>bbb\<close> bound to an action, and
  \<open>b\<close> and \<open>bb\<close> reported as prefixes, the scan of the buffer \<open>ab\<close> ends at
  \<open>a\<close> with the macro, \<open>Process\<close> continues as on the buffer \<open>bb\<close> followed by
  \<open>b\<close>, and it returns the action with the expanded keystring \<open>bbb\<close>.
\<close>

theorem Process_macro_expansion:
  assumes "kb vh ''a'' = (newKeystringBinding ''bb'', False)"
    and "snd (kb vh ''b'')" and "snd (kb vh ''bb'')"
    and "kb vh ''bbb'' = (newActionBinding a, False)" and "a \<noteq> ActionNone"
  shows "scan kb vh [] ''ab'' = Decisive ''a'' (newKeystringBinding ''bb'') ''b'' \<and>
         Process vh \<lparr>keyBindings = kb, buffer = ''ab''\<rparr>
           = Process vh \<lparr>keyBindings = kb, buffer = ''bb'' @ ''b''\<rparr> \<and>
         Process vh \<lparr>keyBindings = kb, buffer = ''ab''\<rparr>
           = Some ((Action a, ''bbb''), \<lparr>keyBindings = kb, buffer = []\<rparr>)"
proof -
  have sc: "scan kb vh [] ''ab'' = Decisive ''a'' (newKeystringBinding ''bb'') ''b''"
    using assms(1) by simp
  then have step: "Process vh \<lparr>keyBindings = kb, buffer = ''ab''\<rparr>
           = Process vh \<lparr>keyBindings = kb, buffer = ''bb'' @ ''b''\<rparr>"
    by (subst Process.simps) (simp del: scan.simps)
  have pre: "\<And>i. 0 < i \<Longrightarrow> i < length ''bbb'' \<Longrightarrow> snd (kb vh (take i ''bbb''))"
  proof -
    fix i :: nat assume "0 < i" "i < length ''bbb''"
    then have "i = 1 \<or> i = 2" by auto
    then show "snd (kb vh (take i ''bbb''))" using assms(2,3) by auto
  qed
  have "Process vh \<lparr>keyBindings = kb, buffer = ''bbb''\<rparr>
          = Some ((Action a, ''bbb''), \<lparr>keyBindings = kb, buffer = []\<rparr>)"
    using Process_decisive_at_end[of "''bbb''" "CHR ''b''" "''bb''" kb vh a, OF _ pre assms(4)]
      assms(5) by simp
  with sc step show ?thesis by simp
qed

theorem Process_macro_expansion_witness:
  "Process vh0 (InputBuffer_Append (NewInputBuffer kbMacro) ''ab'')
     = Some ((Action ActionFirstLine, ''bbb''), \<lparr>keyBindings = kbMacro, buffer = []\<rparr>)"
proof -
  have h1: "kbMacro vh0 ''a'' = (newKeystringBinding ''bb'', False)" by (simp add: kbMacro_def)
  have h2: "snd (kbMacro vh0 ''b'')" by (simp add: kbMacro_def)
  have h3: "snd (kbMacro vh0 ''bb'')" by (simp add: kbMacro_def)
  have h4: "kbMacro vh0 ''bbb'' = (newActionBinding ActionFirstLine, False)"
    by (simp add: kbMacro_def)
  have h5: "ActionFirstLine \<noteq> ActionNone" by simp
  have "Process vh0 \<lparr>keyBindings = kbMacro, buffer = ''ab''\<rparr>
          = Some ((Action ActionFirstLine, ''bbb''), \<lparr>keyBindings = kbMacro, buffer = []\<rparr>)"
    using Process_macro_expansion[of kbMacro vh0 ActionFirstLine, OF h1 h2 h3 h4 h5]
    by (elim conjE)
  then show ?thesis
    by (simp add: NewInputBuffer_def InputBuffer_Append_def)
qed

end
